theory Spec2Isabelle
  imports Complex_Main "HOL-Library.Word" "HOL-Library.Char_ord" "HOL-Library.List_Lexorder"
    "HOL-Library.Product_Lexorder" "HOL-Library.Multiset" "HOL-Library.Sublist"
begin

section \<open>pow: a terminal file explorer (src/pow.py)\<close>

text \<open>
  A shallow embedding of the class \<^verbatim>\<open>FileExplorer\<close> of \<^verbatim>\<open>src/pow.py\<close>.
  Python strings are HOL strings (byte strings: a character outside ASCII is the bytes
  of its UTF-8 encoding), Python integers are \<^typ>\<open>int\<close>, the entry tuples
  \<^verbatim>\<open>(display_name, is_dir, path)\<close> are triples, and the object's fields are a
  record that every method takes and returns. What the program asks of the operating
  system, of \<^verbatim>\<open>rapidfuzz\<close>, of the clock and of the Unicode tables of \<^verbatim>\<open>str\<close> is a
  record of functions (\<open>env\<close>): each call that can raise returns a sum with the error on
  the left.
\<close>

subsection \<open>Strings\<close>

text \<open>\<^verbatim>\<open>str.lower()\<close> restricted to ASCII: the 26 capital letters move, nothing else
  does. The model uses it for the test of line 41 only, where it decides as
  \<^verbatim>\<open>str.lower()\<close> does: the recognised extensions are ASCII and have no \<^verbatim>\<open>k\<close>, and the
  one character outside ASCII whose lower case is ASCII is the Kelvin sign, which
  becomes \<^verbatim>\<open>k\<close>. Where the lower case itself matters (the sort key of line 148, the
  score of line 265) the model takes \<^verbatim>\<open>str.lower\<close> from the environment (\<open>str_lower\<close>
  below).\<close>

definition py_lower_char :: "char \<Rightarrow> char" where
  "py_lower_char c =
     (case map_of (zip ''ABCDEFGHIJKLMNOPQRSTUVWXYZ'' ''abcdefghijklmnopqrstuvwxyz'') c of
        Some d \<Rightarrow> d
      | None \<Rightarrow> c)"

definition py_lower :: "string \<Rightarrow> string" where
  "py_lower s = map py_lower_char s"

text \<open>\<^verbatim>\<open>str.strip()\<close> restricted to ASCII: the white space of ASCII is the code points
  9 to 13, 28 to 31 and 32. It is the \<open>str_strip\<close> of the example environment only; the
  methods take \<^verbatim>\<open>str.strip\<close>, which also removes the white space outside ASCII, from
  the environment (\<open>str_strip\<close> below).\<close>

definition py_isspace :: "char \<Rightarrow> bool" where
  "py_isspace c = (let n = (of_char c :: nat) in (9 \<le> n \<and> n \<le> 13) \<or> (28 \<le> n \<and> n \<le> 32))"

definition py_strip :: "string \<Rightarrow> string" where
  "py_strip s = rev (dropWhile py_isspace (rev (dropWhile py_isspace s)))"

text \<open>\<^verbatim>\<open>str(counter)\<close> for a counter that starts at 1 and only grows: decimal digits.\<close>

fun str_nat :: "nat \<Rightarrow> string" where
  "str_nat n =
     (if n < 10 then [''0123456789'' ! n]
      else str_nat (n div 10) @ [''0123456789'' ! (n mod 10)])"

declare str_nat.simps [simp del]

text \<open>\<^verbatim>\<open>xs[i]\<close>: a negative index counts from the end, an index out of range raises
  \<^verbatim>\<open>IndexError\<close> (here \<open>None\<close>).\<close>

definition py_getitem :: "'a list \<Rightarrow> int \<Rightarrow> 'a option" where
  "py_getitem xs i =
     (let k = (if i < 0 then i + int (length xs) else i)
      in if k < 0 \<or> int (length xs) \<le> k then None else Some (xs ! nat k))"

subsection \<open>Paths, errors and the environment\<close>

text \<open>An absolute path is the list of its components below the root; the root is \<open>[]\<close>
  and is its own parent, as \<^verbatim>\<open>Path('/').parent\<close> is.\<close>

type_synonym path = "string list"

type_synonym byte = "8 word"

type_synonym entry = "string \<times> bool \<times> path"

definition path_parent :: "path \<Rightarrow> path" where
  "path_parent p = butlast p"

definition path_name :: "path \<Rightarrow> string" where
  "path_name p = (if p = [] then [] else last p)"

definition path_join :: "path \<Rightarrow> string \<Rightarrow> path" where
  "path_join p name = p @ [name]"

text \<open>\<^verbatim>\<open>Path.suffix\<close> as pathlib defines it: with \<open>i\<close> the index of the last dot of
  the name, the suffix is \<^verbatim>\<open>name[i:]\<close> when \<^verbatim>\<open>0 < i < len(name) - 1\<close> and the empty
  string otherwise (so \<^verbatim>\<open>.bashrc\<close> and \<^verbatim>\<open>foo.\<close> have none).\<close>

definition rfind_dot :: "string \<Rightarrow> int" where
  "rfind_dot name =
     (if CHR ''.'' \<in> set name
      then int (length name) - 1 - int (length (takeWhile (\<lambda>c. c \<noteq> CHR ''.'') (rev name)))
      else - 1)"

definition path_suffix :: "path \<Rightarrow> string" where
  "path_suffix p =
     (let name = path_name p; i = rfind_dot name
      in if 0 < i \<and> i < int (length name) - 1 then drop (nat i) name else [])"

datatype os_error = PermissionError | OtherOSError

datatype exception = OSError os_error | IndexError

text \<open>How a method ends: it returns, it raises, \<^verbatim>\<open>os.execvp\<close> replaces the process
  by the editor (nothing of the program runs after that), or it never returns.\<close>

datatype 'a result = Return 'a | Raise exception | Replaced path | Diverge

fun and_then :: "'a result \<Rightarrow> ('a \<Rightarrow> 'b result) \<Rightarrow> 'b result" where
  "and_then (Return x) f = f x"
| "and_then (Raise ex) f = Raise ex"
| "and_then (Replaced p) f = Replaced p"
| "and_then Diverge f = Diverge"

record env =
  path_resolve :: "path \<Rightarrow> os_error + path"
  path_iterdir :: "path \<Rightarrow> os_error + string list"
  path_is_dir :: "path \<Rightarrow> os_error + bool"
  path_is_file :: "path \<Rightarrow> os_error + bool"
  path_exists :: "path \<Rightarrow> os_error + bool"
  read_bytes :: "path \<Rightarrow> os_error + byte list"
  write_text :: "path \<Rightarrow> os_error + unit"
  execvp_editor :: "path \<Rightarrow> bool"
  strftime_today :: string
  fuzz_ratio :: "string \<Rightarrow> string \<Rightarrow> real"
  str_lower :: "string \<Rightarrow> string"
  str_strip :: "string \<Rightarrow> string"

text \<open>
  \<^descr>[\<open>path_resolve\<close>] \<^verbatim>\<open>path.resolve()\<close>.
  \<^descr>[\<open>path_iterdir\<close>] the names of the children that \<^verbatim>\<open>path.iterdir()\<close> yields.
  \<^descr>[\<open>path_is_dir\<close>, \<open>path_is_file\<close>, \<open>path_exists\<close>] the pathlib tests; they raise
    on a permission error of the underlying \<^verbatim>\<open>stat\<close>.
  \<^descr>[\<open>read_bytes\<close>] \<^verbatim>\<open>open(path, 'rb')\<close>: the content of the file, or the error of
    opening or reading it.
  \<^descr>[\<open>write_text\<close>] \<^verbatim>\<open>path.write_text("")\<close>.
  \<^descr>[\<open>execvp_editor\<close>] whether \<^verbatim>\<open>$EDITOR\<close> is set and \<^verbatim>\<open>os.execvp\<close> of it on the
    path succeeds.
  \<^descr>[\<open>strftime_today\<close>] \<^verbatim>\<open>datetime.now().strftime("%Y-%m-%d.md")\<close>.
  \<^descr>[\<open>fuzz_ratio\<close>] \<^verbatim>\<open>rapidfuzz.fuzz.ratio\<close>, a similarity between 0 and 100.
  \<^descr>[\<open>str_lower\<close>] \<^verbatim>\<open>str.lower()\<close>, on the UTF-8 bytes of the string: Python
    lower-cases every cased character of Unicode, not the ASCII letters only.
  \<^descr>[\<open>str_strip\<close>] \<^verbatim>\<open>str.strip()\<close>, on the UTF-8 bytes of the string: Python
    removes every white space character of Unicode at both ends.

  Strings are compared as Python compares them: the order of the bytes of UTF-8 is the
  order of the code points.
\<close>

record explorer =
  current_path :: path
  cursor_position :: int
  items :: "entry list"
  search_mode :: bool
  search_query :: string
  filtered_items :: "entry list"
  note_mode :: bool
  note_title :: string

subsection \<open>\<^verbatim>\<open>is_text_file\<close> (lines 39 to 62)\<close>

definition TEXT_EXTENSIONS :: "string list" where
  "TEXT_EXTENSIONS =
     [''.txt'', ''.md'', ''.py'', ''.js'', ''.json'', ''.yaml'', ''.yml'',
      ''.html'', ''.css'', ''.sh'', ''.conf'', ''.cfg'', ''.ini'', ''.log'',
      ''.sql'', ''.xml'', ''.csv'', ''.toml'', ''.rs'', ''.go'', ''.c'', ''.cpp'',
      ''.h'', ''.hpp'', ''.java'', ''.php'', ''.rb'', ''.pl'', ''.ts'', ''.jsx'',
      ''.tsx'', ''.vue'', ''.svelte'', ''.scss'', ''.sass'', ''.less'']"

text \<open>\<^verbatim>\<open>chunk.decode('utf-8')\<close> succeeds: the strict decoder accepts the well-formed
  sequences only (no overlong form, no surrogate, nothing above U+10FFFF, no sequence
  cut short by the end of the chunk).\<close>

definition utf8_cont :: "byte \<Rightarrow> bool" where
  "utf8_cont b = (0x80 \<le> b \<and> b \<le> 0xBF)"

fun utf8_decodes :: "byte list \<Rightarrow> bool" where
  "utf8_decodes [] = True"
| "utf8_decodes (b # bs) =
     (if b < 0x80 then utf8_decodes bs
      else if 0xC2 \<le> b \<and> b \<le> 0xDF then
        (case bs of
           c1 # r \<Rightarrow> utf8_cont c1 \<and> utf8_decodes r
         | _ \<Rightarrow> False)
      else if 0xE0 \<le> b \<and> b \<le> 0xEF then
        (case bs of
           c1 # c2 # r \<Rightarrow>
             (if b = 0xE0 then 0xA0 \<le> c1 \<and> c1 \<le> 0xBF
              else if b = 0xED then 0x80 \<le> c1 \<and> c1 \<le> 0x9F
              else utf8_cont c1)
             \<and> utf8_cont c2 \<and> utf8_decodes r
         | _ \<Rightarrow> False)
      else if 0xF0 \<le> b \<and> b \<le> 0xF4 then
        (case bs of
           c1 # c2 # c3 # r \<Rightarrow>
             (if b = 0xF0 then 0x90 \<le> c1 \<and> c1 \<le> 0xBF
              else if b = 0xF4 then 0x80 \<le> c1 \<and> c1 \<le> 0x8F
              else utf8_cont c1)
             \<and> utf8_cont c2 \<and> utf8_cont c3 \<and> utf8_decodes r
         | _ \<Rightarrow> False)
      else False)"

text \<open>The generator of line 55: \<^verbatim>\<open>c < 127 and (c >= 32 or c in [9, 10, 13])\<close>.\<close>

definition printable :: "byte \<Rightarrow> bool" where
  "printable c = (c < 127 \<and> (c \<ge> 32 \<or> c \<in> set [9, 10, 13]))"

text \<open>Line 55 divides two integers, at most 512, as floats and line 56 compares the
  quotient with the float 0.8. The exact quotient gives the same answer: a fraction
  \<open>c / n\<close> with \<open>n \<le> 512\<close> is \<open>4 / 5\<close> or differs from it by \<open>1 / 2560\<close> at least, far
  more than the rounding of a float.\<close>

definition printable_ratio :: "byte list \<Rightarrow> real" where
  "printable_ratio chunk = real (length (filter printable chunk)) / real (length chunk)"

text \<open>The result is paired with the list of the files the call opened, so that
  ``without reading'' can be said: \<open>[]\<close> when \<^verbatim>\<open>open\<close> was not called.\<close>

definition is_text_file :: "env \<Rightarrow> path \<Rightarrow> bool \<times> path list" where
  "is_text_file e p =
     (if py_lower (path_suffix p) \<in> set TEXT_EXTENSIONS then (True, [])
      else if path_suffix p = [] then
        (case read_bytes e p of
           Inl err \<Rightarrow> (False, [p])
         | Inr content \<Rightarrow>
             (let chunk = take 512 content
              in if chunk = [] then (True, [p])
                 else if utf8_decodes chunk then (printable_ratio chunk > 0.8, [p])
                 else (False, [p])))
      else (False, []))"

subsection \<open>\<^verbatim>\<open>sanitize_filename\<close> (lines 64 to 77)\<close>

text \<open>\<^verbatim>\<open>re.sub(r'[^a-zA-Z0-9\-_]', '', s)\<close> keeps the characters of the class.\<close>

definition filename_char :: "char \<Rightarrow> bool" where
  "filename_char c =
     ((CHR ''a'' \<le> c \<and> c \<le> CHR ''z'') \<or> (CHR ''A'' \<le> c \<and> c \<le> CHR ''Z'') \<or>
      (CHR ''0'' \<le> c \<and> c \<le> CHR ''9'') \<or> c = CHR ''-'' \<or> c = CHR ''_'')"

text \<open>\<^verbatim>\<open>re.sub(r'-+', '-', s)\<close>: every maximal run of hyphens becomes one hyphen.\<close>

fun collapse_hyphens :: "string \<Rightarrow> string" where
  "collapse_hyphens (c # d # cs) =
     (if c = CHR ''-'' \<and> d = CHR ''-'' then collapse_hyphens (d # cs)
      else c # collapse_hyphens (d # cs))"
| "collapse_hyphens cs = cs"

text \<open>\<^verbatim>\<open>s.strip('-')\<close>.\<close>

definition strip_hyphens :: "string \<Rightarrow> string" where
  "strip_hyphens s =
     rev (dropWhile (\<lambda>c. c = CHR ''-'') (rev (dropWhile (\<lambda>c. c = CHR ''-'') s)))"

text \<open>Lines 67 to 73, the four rewriting steps before the test for emptiness.\<close>

definition sanitize_steps :: "string \<Rightarrow> string" where
  "sanitize_steps title =
     (let filename = map (\<lambda>c. if c = CHR '' '' then CHR ''-'' else c) title;
          filename = filter filename_char filename;
          filename = collapse_hyphens filename;
          filename = strip_hyphens filename
      in filename)"

definition sanitize_filename :: "string \<Rightarrow> string" where
  "sanitize_filename title =
     (let filename = sanitize_steps title
      in if filename = [] then ''untitled'' else filename)"

subsection \<open>The window of \<^verbatim>\<open>render_ui\<close> (lines 202 to 208)\<close>

definition visible_window :: "int \<Rightarrow> int \<Rightarrow> int \<Rightarrow> int \<times> int" where
  "visible_window n_items cursor available_rows =
     (let start_idx = max 0 (cursor - available_rows + 1);
          end_idx = min n_items (start_idx + available_rows);
          start_idx = (if end_idx = n_items then max 0 (end_idx - available_rows) else start_idx)
      in (start_idx, end_idx))"

subsection \<open>\<^verbatim>\<open>scan_directory\<close> (lines 123 to 160)\<close>

text \<open>Lines 128 and 129: the entry for the parent directory, unless at the root.\<close>

definition parent_entry :: "path \<Rightarrow> entry list" where
  "parent_entry p = (if p \<noteq> path_parent p then [(''../'', True, path_parent p)] else [])"

text \<open>One round of the loop of lines 133 to 145: the entries (none or one) that the
  child \<open>name\<close> of \<open>dir\<close> adds. An error of \<^verbatim>\<open>is_dir\<close> or \<^verbatim>\<open>is_file\<close> skips the child.\<close>

definition scan_item :: "env \<Rightarrow> path \<Rightarrow> string \<Rightarrow> entry list" where
  "scan_item e dir name =
     (let item = path_join dir name
      in if take 1 name = ''.'' then []
         else (case path_is_dir e item of
                 Inl err \<Rightarrow> []
               | Inr d \<Rightarrow>
                   if d then [(name @ ''/'', True, item)]
                   else (case path_is_file e item of
                           Inl err \<Rightarrow> []
                         | Inr f \<Rightarrow>
                             if f \<and> fst (is_text_file e item) then [(name, False, item)]
                             else [])))"

text \<open>The key of line 148: \<^verbatim>\<open>(not x[1], x[0].lower())\<close>. Pairs and strings are
  ordered lexicographically, \<open>False < True\<close>; \<^verbatim>\<open>list.sort\<close> is stable, as
  \<^const>\<open>sort_key\<close> is.\<close>

definition entry_key :: "env \<Rightarrow> entry \<Rightarrow> bool \<times> string" where
  "entry_key e x = (\<not> fst (snd x), str_lower e (fst x))"

text \<open>Lines 155 to 160.\<close>

definition reset_cursor :: "explorer \<Rightarrow> explorer" where
  "reset_cursor st =
     (if items st \<noteq> []
      then st\<lparr>cursor_position := max 0 (min (cursor_position st) (int (length (items st)) - 1))\<rparr>
      else st\<lparr>cursor_position := 0\<rparr>)"

text \<open>Only \<^verbatim>\<open>PermissionError\<close> of \<^verbatim>\<open>iterdir\<close> is caught (line 151); any other error
  of the operating system leaves the method as an exception.\<close>

definition scan_directory :: "env \<Rightarrow> explorer \<Rightarrow> explorer result" where
  "scan_directory e st =
     (let st = st\<lparr>items := parent_entry (current_path st)\<rparr>
      in case path_iterdir e (current_path st) of
           Inl PermissionError \<Rightarrow> Return (reset_cursor st)
         | Inl OtherOSError \<Rightarrow> Raise (OSError OtherOSError)
         | Inr names \<Rightarrow>
             (let entries = concat (map (scan_item e (current_path st)) names);
                  entries = sort_key (entry_key e) entries
              in Return (reset_cursor (st\<lparr>items := items st @ entries\<rparr>))))"

subsection \<open>\<^verbatim>\<open>handle_search\<close> (lines 258 to 274)\<close>

text \<open>\<^verbatim>\<open>list.sort(key=k, reverse=True)\<close>: descending by key and still stable; CPython
  reverses the list, sorts it stably in ascending order and reverses it again.\<close>

definition sort_reverse :: "('a \<Rightarrow> 'k::linorder) \<Rightarrow> 'a list \<Rightarrow> 'a list" where
  "sort_reverse k xs = rev (sort_key k (rev xs))"

definition search_score :: "env \<Rightarrow> string \<Rightarrow> entry \<Rightarrow> real" where
  "search_score e query item = fuzz_ratio e (str_lower e query) (str_lower e (fst item))"

definition handle_search :: "env \<Rightarrow> explorer \<Rightarrow> string \<Rightarrow> explorer" where
  "handle_search e st query =
     (let filtered =
            (if query = [] then items st
             else let matches = map (\<lambda>item. (search_score e query item, item))
                                  (filter (\<lambda>item. search_score e query item > 40) (items st));
                      matches = sort_reverse fst matches
                  in map snd matches)
      in st\<lparr>filtered_items := filtered, cursor_position := 0\<rparr>)"

subsection \<open>\<^verbatim>\<open>open_file\<close>, \<^verbatim>\<open>navigate_to\<close>, the notes\<close>

text \<open>Lines 276 to 297: the editor replaces the process, or the method prints a
  message, waits for the Enter key and returns.\<close>

definition open_file :: "env \<Rightarrow> path \<Rightarrow> unit result" where
  "open_file e file_path = (if execvp_editor e file_path then Replaced file_path else Return ())"

text \<open>Lines 299 to 311. The \<^verbatim>\<open>except PermissionError\<close> of line 309 can only catch an
  error of \<^verbatim>\<open>resolve\<close>: \<^verbatim>\<open>scan_directory\<close> catches its own.\<close>

definition navigate_to :: "env \<Rightarrow> explorer \<Rightarrow> path \<Rightarrow> explorer result" where
  "navigate_to e st p =
     (case path_resolve e p of
        Inl PermissionError \<Rightarrow> Return st
      | Inl OtherOSError \<Rightarrow> Raise (OSError OtherOSError)
      | Inr q \<Rightarrow>
          scan_directory e
            (st\<lparr>current_path := q, cursor_position := 0, search_mode := False,
                search_query := [], note_mode := False, note_title := []\<rparr>))"

text \<open>The loop of lines 92 to 96. It has no bound: when every candidate exists it does
  not return, which is the value \<open>None\<close>.\<close>

partial_function (option) free_path_loop ::
  "env \<Rightarrow> path \<Rightarrow> string \<Rightarrow> path \<Rightarrow> nat \<Rightarrow> (os_error + path) option" where
  "free_path_loop e dir filename file_path counter =
     (case path_exists e file_path of
        Inl err \<Rightarrow> Some (Inl err)
      | Inr b \<Rightarrow>
          if b then free_path_loop e dir filename
                      (path_join dir (filename @ ''-'' @ str_nat counter @ ''.md'')) (counter + 1)
          else Some (Inr file_path))"

text \<open>Lines 89 to 96: the path of the new note.\<close>

definition note_path :: "env \<Rightarrow> path \<Rightarrow> string \<Rightarrow> (os_error + path) option" where
  "note_path e dir filename = free_path_loop e dir filename (path_join dir (filename @ ''.md'')) 1"

text \<open>Lines 83 to 105. The object's fields are not assigned.\<close>

definition create_note :: "env \<Rightarrow> explorer \<Rightarrow> string \<Rightarrow> bool result" where
  "create_note e st title =
     (if str_strip e title = [] then Return False
      else let filename = sanitize_filename (str_strip e title)
           in case note_path e (current_path st) filename of
                None \<Rightarrow> Diverge
              | Some (Inl err) \<Rightarrow> Raise (OSError err)
              | Some (Inr file_path) \<Rightarrow>
                  (case write_text e file_path of
                     Inl err \<Rightarrow> Return False
                   | Inr u \<Rightarrow> and_then (open_file e file_path) (\<lambda>u. Return True)))"

text \<open>Lines 107 to 121.\<close>

definition open_daily_note :: "env \<Rightarrow> explorer \<Rightarrow> bool result" where
  "open_daily_note e st =
     (let file_path = path_join (current_path st) (strftime_today e)
      in case path_exists e file_path of
           Inl err \<Rightarrow> Raise (OSError err)
         | Inr b \<Rightarrow>
             if \<not> b then
               (case write_text e file_path of
                  Inl err \<Rightarrow> Return False
                | Inr u \<Rightarrow> and_then (open_file e file_path) (\<lambda>u. Return True))
             else and_then (open_file e file_path) (\<lambda>u. Return True))"

subsection \<open>\<^verbatim>\<open>handle_input\<close> (lines 313 to 371)\<close>

text \<open>The key codes of curses.\<close>

definition KEY_DOWN :: int where "KEY_DOWN = 258"

definition KEY_UP :: int where "KEY_UP = 259"

definition KEY_BACKSPACE :: int where "KEY_BACKSPACE = 263"

text \<open>Lines 326 to 330, and again lines 365 to 369: Enter on the selected entry.\<close>

definition open_selected :: "env \<Rightarrow> explorer \<Rightarrow> entry list \<Rightarrow> (explorer \<times> bool) result" where
  "open_selected e st current_items =
     (case py_getitem current_items (cursor_position st) of
        None \<Rightarrow> Raise IndexError
      | Some selected \<Rightarrow>
          if fst (snd selected)
          then and_then (navigate_to e st (snd (snd selected))) (\<lambda>st'. Return (st', True))
          else and_then (open_file e (snd (snd selected))) (\<lambda>u. Return (st, True)))"

text \<open>The result is the new state and the value returned: \<open>False\<close> to quit. Query and
  title grow by the ASCII characters typed (\<^verbatim>\<open>chr(key)\<close> for a key from 32 to 126) and
  by nothing else, so their last character, which \<^verbatim>\<open>[:-1]\<close> removes, is their last
  byte.\<close>

definition handle_input :: "env \<Rightarrow> explorer \<Rightarrow> int \<Rightarrow> (explorer \<times> bool) result" where
  "handle_input e st key =
     (let current_items = (if search_mode st then filtered_items st else items st)
      in if search_mode st then
           (if key = 27 then
              Return (st\<lparr>search_mode := False, search_query := [], cursor_position := 0\<rparr>, True)
            else if key = 127 \<or> key = KEY_BACKSPACE \<or> key = 8 then
              (let st = st\<lparr>search_query := butlast (search_query st)\<rparr>
               in Return (handle_search e st (search_query st), True))
            else if (key = 10 \<or> key = 13) \<and> current_items \<noteq> [] then
              open_selected e st current_items
            else if 32 \<le> key \<and> key \<le> 126 then
              (let st = st\<lparr>search_query := search_query st @ [char_of key]\<rparr>
               in Return (handle_search e st (search_query st), True))
            else Return (st, True))
         else if note_mode st then
           (if key = 27 then Return (st\<lparr>note_mode := False, note_title := []\<rparr>, True)
            else if key = 127 \<or> key = KEY_BACKSPACE \<or> key = 8 then
              Return (st\<lparr>note_title := butlast (note_title st)\<rparr>, True)
            else if key = 10 \<or> key = 13 then
              (if str_strip e (note_title st) \<noteq> []
               then and_then (create_note e st (note_title st))
                      (\<lambda>created. Return (st\<lparr>note_mode := False, note_title := []\<rparr>, True))
               else Return (st\<lparr>note_mode := False, note_title := []\<rparr>, True))
            else if 32 \<le> key \<and> key \<le> 126 then
              Return (st\<lparr>note_title := note_title st @ [char_of key]\<rparr>, True)
            else Return (st, True))
         else
           (if key = of_char CHR ''q'' then Return (st, False)
            else if key = of_char CHR ''/'' then
              (let st = st\<lparr>search_mode := True, search_query := []\<rparr>
               in Return (handle_search e st [], True))
            else if key = 14 then Return (st\<lparr>note_mode := True, note_title := []\<rparr>, True)
            else if key = 4 then
              and_then (open_daily_note e st) (\<lambda>opened. Return (st, True))
            else if key = KEY_UP \<and> current_items \<noteq> [] then
              Return (st\<lparr>cursor_position := max 0 (cursor_position st - 1)\<rparr>, True)
            else if key = KEY_DOWN \<and> current_items \<noteq> [] then
              Return (st\<lparr>cursor_position :=
                           min (int (length current_items) - 1) (cursor_position st + 1)\<rparr>, True)
            else if (key = 10 \<or> key = 13) \<and> current_items \<noteq> [] then
              open_selected e st current_items
            else Return (st, True)))"

subsection \<open>\<^verbatim>\<open>__init__\<close> (lines 29 to 37)\<close>

definition init_explorer :: "path \<Rightarrow> explorer" where
  "init_explorer cwd =
     \<lparr>current_path = cwd, cursor_position = 0, items = [], search_mode = False,
      search_query = [], filtered_items = [], note_mode = False, note_title = []\<rparr>"

subsection \<open>A small environment for the examples\<close>

text \<open>The similarity that \<^verbatim>\<open>rapidfuzz.fuzz.ratio\<close> documents, in exact arithmetic: with
  \<open>l\<close> the length of a longest common subsequence, \<open>200 * l / (len s1 + len s2)\<close>, and
  100 for two empty strings. The theorems below hold for every \<open>fuzz_ratio\<close>; this one is
  only the \<open>fuzz_ratio\<close> of the example environment.\<close>

fun lcs_length :: "string \<Rightarrow> string \<Rightarrow> nat" where
  "lcs_length [] ys = 0"
| "lcs_length (x # xs) [] = 0"
| "lcs_length (x # xs) (y # ys) =
     (if x = y then Suc (lcs_length xs ys)
      else max (lcs_length xs (y # ys)) (lcs_length (x # xs) ys))"

definition indel_ratio :: "string \<Rightarrow> string \<Rightarrow> real" where
  "indel_ratio s1 s2 =
     (if length s1 + length s2 = 0 then 100
      else 200 * real (lcs_length s1 s2) / real (length s1 + length s2))"

text \<open>The directory \<^verbatim>\<open>/home/user\<close> holds three directories (\<^verbatim>\<open>secret\<close> cannot be
  listed, \<^verbatim>\<open>docs\<close> is empty) and eight files; \<^verbatim>\<open>README\<close> is the text \<^verbatim>\<open>Hi\<close> and a
  newline, \<^verbatim>\<open>blob\<close> is the two bytes FF 00, \<^verbatim>\<open>empty\<close> has no content. No editor is
  configured. Every name and every query of the examples is ASCII, where
  \<^verbatim>\<open>str.lower\<close> and \<^verbatim>\<open>str.strip\<close> are \<^const>\<open>py_lower\<close> and \<^const>\<open>py_strip\<close>.\<close>

definition demo_dir :: path where
  "demo_dir = [''home'', ''user'']"

definition demo_dirs :: "string list" where
  "demo_dirs = [''docs'', ''secret'', ''Archive'']"

definition demo_files :: "string list" where
  "demo_files = [''notes.md'', ''README'', ''.hidden'', ''photo.png'', ''blob'',
                 ''notes-1.md'', ''empty'', ''TODO.TXT'']"

definition demo_listing :: "string list" where
  "demo_listing = [''notes.md'', ''docs'', ''README'', ''.hidden'', ''photo.png'', ''blob'',
                   ''secret'', ''notes-1.md'', ''empty'', ''TODO.TXT'', ''Archive'']"

definition demo_env :: env where
  "demo_env =
     \<lparr>path_resolve = (\<lambda>p. Inr p),
      path_iterdir = (\<lambda>p. if p = demo_dir then Inr demo_listing
                           else if p = demo_dir @ [''secret''] then Inl PermissionError
                           else if p = demo_dir @ [''docs''] then Inr []
                           else Inl OtherOSError),
      path_is_dir = (\<lambda>p. Inr (p \<in> set (map (path_join demo_dir) demo_dirs)
                               \<or> p \<in> set [[], [''home''], demo_dir])),
      path_is_file = (\<lambda>p. Inr (p \<in> set (map (path_join demo_dir) demo_files))),
      path_exists = (\<lambda>p. Inr (p \<in> set (map (path_join demo_dir) (demo_dirs @ demo_files))
                               \<or> p \<in> set [[], [''home''], demo_dir])),
      read_bytes = (\<lambda>p. if p = demo_dir @ [''README''] then Inr [0x48, 0x69, 0x0A]
                         else if p = demo_dir @ [''blob''] then Inr [0xFF, 0x00]
                         else if p = demo_dir @ [''empty''] then Inr []
                         else Inl OtherOSError),
      write_text = (\<lambda>p. Inr ()),
      execvp_editor = (\<lambda>p. False),
      strftime_today = ''2024-03-07.md'',
      fuzz_ratio = indel_ratio,
      str_lower = py_lower,
      str_strip = py_strip\<rparr>"

subsection \<open>The candidates of the loop of \<^verbatim>\<open>create_note\<close>\<close>

text \<open>The paths the loop of lines 94 to 96 tries, in its order: \<^verbatim>\<open>stem.md\<close> is number 0,
  \<^verbatim>\<open>stem-k.md\<close> is number \<open>k\<close>. When the loop tests candidate \<open>k\<close>, its counter is
  \<open>k + 1\<close>.\<close>

definition note_candidate :: "path \<Rightarrow> string \<Rightarrow> nat \<Rightarrow> path" where
  "note_candidate dir stem k =
     (if k = 0 then path_join dir (stem @ ''.md'')
      else path_join dir (stem @ ''-'' @ str_nat k @ ''.md''))"

text \<open>The explorer after the first scan of \<^verbatim>\<open>/home/user\<close>.\<close>

definition demo_items :: "entry list" where
  "demo_items =
     [(''../'', True, [''home'']),
      (''Archive/'', True, [''home'', ''user'', ''Archive'']),
      (''docs/'', True, [''home'', ''user'', ''docs'']),
      (''secret/'', True, [''home'', ''user'', ''secret'']),
      (''empty'', False, [''home'', ''user'', ''empty'']),
      (''notes-1.md'', False, [''home'', ''user'', ''notes-1.md'']),
      (''notes.md'', False, [''home'', ''user'', ''notes.md'']),
      (''README'', False, [''home'', ''user'', ''README'']),
      (''TODO.TXT'', False, [''home'', ''user'', ''TODO.TXT''])]"

definition demo_state :: explorer where
  "demo_state = (init_explorer demo_dir)\<lparr>items := demo_items\<rparr>"

subsection \<open>The list under the cursor\<close>

text \<open>The list that \<^verbatim>\<open>handle_input\<close> and \<^verbatim>\<open>render_ui\<close> index with the cursor
  (\<^verbatim>\<open>current_items\<close>, line 315), and the cursor being inside it.\<close>

definition active_list :: "explorer \<Rightarrow> entry list" where
  "active_list st = (if search_mode st then filtered_items st else items st)"

definition cursor_ok :: "explorer \<Rightarrow> bool" where
  "cursor_ok st =
     (if active_list st = [] then cursor_position st = 0
      else 0 \<le> cursor_position st \<and> cursor_position st < int (length (active_list st)))"

text \<open>The example explorer after the key \<^verbatim>\<open>/\<close>: search mode, the empty query.\<close>

definition demo_search_state :: explorer where
  "demo_search_state = demo_state\<lparr>search_mode := True, filtered_items := demo_items\<rparr>"

text \<open>The states of the main loop (\<^verbatim>\<open>run\<close>, lines 373 to 397): the first scan of the
  working directory, then one \<^verbatim>\<open>handle_input\<close> for every key as long as it returns
  \<^verbatim>\<open>True\<close>. The environment may differ from one step to the next.\<close>

inductive reachable :: "explorer \<Rightarrow> bool" where
  start: "scan_directory e (init_explorer cwd) = Return s \<Longrightarrow> reachable s"
| step: "reachable s \<Longrightarrow> handle_input e s key = Return (s', True) \<Longrightarrow> reachable s'"

section \<open>The claims\<close>

subsection \<open>C5: the window of the list\<close>

text \<open>
  C5. For every number of items \<open>n\<close>, every cursor with \<open>0 \<le> c < n\<close> and every number of
  rows \<open>v > 0\<close>, the window \<open>(s, e)\<close> that lines 202 to 208 compute contains the cursor
  (\<open>s \<le> c < e\<close>), stays inside the list (\<open>0 \<le> s\<close>, \<open>e \<le> n\<close>) and has \<open>min n v\<close> rows; for
  10 items and 3 rows it is \<open>(7, 10)\<close> with the cursor at 9 and \<open>(0, 3)\<close> with the cursor
  at 0.
\<close>

theorem visible_window_ok:
  "0 \<le> n \<Longrightarrow> 0 \<le> c \<Longrightarrow> c < n \<Longrightarrow> 0 < v \<Longrightarrow>
     (case visible_window n c v of
        (s, e) \<Rightarrow> s \<le> c \<and> c < e \<and> 0 \<le> s \<and> e \<le> n \<and> e - s = min n v)
     \<and> visible_window 10 9 3 = (7, 10) \<and> visible_window 10 0 3 = (0, 3)"
  by (auto simp: visible_window_def Let_def min_def max_def)

theorem visible_window_witness:
  "visible_window 12 7 5 = (3, 8) \<and> visible_window 4 3 9 = (0, 4)
   \<and> visible_window 10 9 3 = (7, 10)"
proof -
  have "visible_window 12 7 5 = (3, 8)"
    using visible_window_ok [of 12 7 5] by (simp add: visible_window_def)
  moreover have "visible_window 4 3 9 = (0, 4)"
    using visible_window_ok [of 4 3 9] by (simp add: visible_window_def)
  moreover have "visible_window 10 9 3 = (7, 10)"
    using visible_window_ok [of 10 9 3] by simp
  ultimately show ?thesis by simp
qed

subsection \<open>C6: file names of notes\<close>

text \<open>The characters between two letters, or two digits, in the order of their codes.\<close>

lemma char_between:
  assumes "map of_char cs = [lo..<Suc hi]" and "lo \<le> of_char c" and "of_char c \<le> hi"
  shows "c \<in> set cs"
proof -
  have "(of_char c :: nat) \<in> set [lo..<Suc hi]" using assms(2,3) by auto
  then have "(of_char c :: nat) \<in> set (map of_char cs)" by (simp only: assms(1))
  then obtain d where "d \<in> set cs" and "(of_char c :: nat) = of_char d" by auto
  then show ?thesis by simp
qed

lemma lower_codes: "map of_char ''abcdefghijklmnopqrstuvwxyz'' = [97..<Suc 122]"
  by code_simp

lemma upper_codes: "map of_char ''ABCDEFGHIJKLMNOPQRSTUVWXYZ'' = [65..<Suc 90]"
  by code_simp

lemma digit_codes: "map of_char ''0123456789'' = [48..<Suc 57]"
  by code_simp

lemma lower_range: "CHR ''a'' \<le> c \<Longrightarrow> c \<le> CHR ''z'' \<Longrightarrow> c \<in> set ''abcdefghijklmnopqrstuvwxyz''"
  by (rule char_between [OF lower_codes]) (simp_all add: less_eq_char_def)

lemma upper_range: "CHR ''A'' \<le> c \<Longrightarrow> c \<le> CHR ''Z'' \<Longrightarrow> c \<in> set ''ABCDEFGHIJKLMNOPQRSTUVWXYZ''"
  by (rule char_between [OF upper_codes]) (simp_all add: less_eq_char_def)

lemma digit_range: "CHR ''0'' \<le> c \<Longrightarrow> c \<le> CHR ''9'' \<Longrightarrow> c \<in> set ''0123456789''"
  by (rule char_between [OF digit_codes]) (simp_all add: less_eq_char_def)

lemma filename_char_set1:
  assumes "filename_char c"
  shows "c \<in> set ''abcdefghijklmnopqrstuvwxyzABCDEFGHIJKLMNOPQRSTUVWXYZ0123456789-_''"
proof -
  from assms consider "CHR ''a'' \<le> c \<and> c \<le> CHR ''z''" | "CHR ''A'' \<le> c \<and> c \<le> CHR ''Z''"
    | "CHR ''0'' \<le> c \<and> c \<le> CHR ''9''" | "c = CHR ''-'' \<or> c = CHR ''_''"
    unfolding filename_char_def by blast
  then have "c \<in> set ''abcdefghijklmnopqrstuvwxyz'' \<union> (set ''ABCDEFGHIJKLMNOPQRSTUVWXYZ''
      \<union> (set ''0123456789'' \<union> set ''-_''))"
  proof cases
    case 1 then have "c \<in> set ''abcdefghijklmnopqrstuvwxyz''" by (simp only: lower_range)
    then show ?thesis by (rule UnI1)
  next
    case 2 then have "c \<in> set ''ABCDEFGHIJKLMNOPQRSTUVWXYZ''" by (simp only: upper_range)
    then show ?thesis by (intro UnI2 UnI1)
  next
    case 3 then have "c \<in> set ''0123456789''" by (simp only: digit_range)
    then show ?thesis by (intro UnI2 UnI1)
  next
    case 4 then have "c \<in> set ''-_''" by auto
    then show ?thesis by (intro UnI2)
  qed
  then have "c \<in> set (''abcdefghijklmnopqrstuvwxyz'' @ ''ABCDEFGHIJKLMNOPQRSTUVWXYZ''
      @ ''0123456789'' @ ''-_'')"
    by (simp only: set_append)
  then show ?thesis by (simp only: append.simps)
qed

lemma set_collapse: "set (collapse_hyphens s) \<subseteq> set s"
  by (induction s rule: collapse_hyphens.induct) auto

lemma hd_collapse: "collapse_hyphens (d # cs) \<noteq> [] \<and> hd (collapse_hyphens (d # cs)) = d"
  by (induction cs arbitrary: d) auto

lemma no_double_collapse: "\<not> sublist ''--'' (collapse_hyphens s)"
proof (induction s rule: collapse_hyphens.induct)
  case (1 c d cs)
  then show ?case using hd_collapse [of d cs]
    by (cases "collapse_hyphens (d # cs)") (auto simp: sublist_Cons_right)
qed (auto simp: sublist_Cons_right)

lemma rev_dropWhile_rev_prefix: "prefix (rev (dropWhile P (rev s))) s"
proof -
  have "suffix (dropWhile P (rev s)) (rev s)" by (rule suffix_dropWhile)
  then obtain zs where "rev s = zs @ dropWhile P (rev s)" by (auto simp: suffix_def)
  then have "rev (rev s) = rev (zs @ dropWhile P (rev s))" by (rule arg_cong)
  then have "s = rev (dropWhile P (rev s)) @ rev zs" by simp
  then show ?thesis by (rule prefixI)
qed

lemma strip_sublist: "sublist (strip_hyphens s) s"
proof -
  let ?d = "dropWhile (\<lambda>c. c = CHR ''-'') s"
  have "prefix (strip_hyphens s) ?d"
    unfolding strip_hyphens_def by (rule rev_dropWhile_rev_prefix)
  then have "sublist (strip_hyphens s) ?d" by (rule prefix_imp_sublist)
  moreover have "sublist ?d s" by (rule suffix_imp_sublist) (rule suffix_dropWhile)
  ultimately show ?thesis by (rule sublist_order.order_trans)
qed

lemma strip_ends:
  assumes "strip_hyphens s \<noteq> []"
  shows "hd (strip_hyphens s) \<noteq> CHR ''-'' \<and> last (strip_hyphens s) \<noteq> CHR ''-''"
proof -
  let ?P = "\<lambda>c. c = CHR ''-''"
  let ?d = "dropWhile ?P s"
  have p: "prefix (strip_hyphens s) ?d"
    unfolding strip_hyphens_def by (rule rev_dropWhile_rev_prefix)
  then obtain zs where d: "?d = strip_hyphens s @ zs" by (auto simp: prefix_def)
  with assms have dne: "?d \<noteq> []" by simp
  have "hd (strip_hyphens s @ zs) = hd (strip_hyphens s)" using assms by (rule hd_append2)
  then have "hd ?d = hd (strip_hyphens s)" by (simp only: d [symmetric])
  moreover from dne have "\<not> ?P (hd ?d)" by (rule hd_dropWhile)
  ultimately have 1: "hd (strip_hyphens s) \<noteq> CHR ''-''" by simp
  have ne: "dropWhile ?P (rev ?d) \<noteq> []"
    using assms unfolding strip_hyphens_def by simp
  have "last (strip_hyphens s) = hd (dropWhile ?P (rev ?d))"
    unfolding strip_hyphens_def using ne by (simp only: last_rev)
  moreover from ne have "\<not> ?P (hd (dropWhile ?P (rev ?d)))" by (rule hd_dropWhile)
  ultimately have 2: "last (strip_hyphens s) \<noteq> CHR ''-''" by simp
  from 1 2 show ?thesis by simp
qed

lemma sanitize_steps_chars: "set (sanitize_steps t) \<subseteq> {c. filename_char c}"
proof -
  let ?f = "filter filename_char (map (\<lambda>c. if c = CHR '' '' then CHR ''-'' else c) t)"
  have "set (strip_hyphens (collapse_hyphens ?f)) \<subseteq> set (collapse_hyphens ?f)"
    using strip_sublist [of "collapse_hyphens ?f"] by (rule set_mono_sublist)
  also have "\<dots> \<subseteq> set ?f" by (rule set_collapse)
  also have "\<dots> \<subseteq> {c. filename_char c}" by auto
  finally show ?thesis by (simp only: sanitize_steps_def Let_def)
qed

lemma sanitize_steps_no_double: "\<not> sublist ''--'' (sanitize_steps t)"
proof
  let ?f = "filter filename_char (map (\<lambda>c. if c = CHR '' '' then CHR ''-'' else c) t)"
  assume "sublist ''--'' (sanitize_steps t)"
  then have "sublist ''--'' (strip_hyphens (collapse_hyphens ?f))"
    by (simp only: sanitize_steps_def Let_def)
  then have "sublist ''--'' (collapse_hyphens ?f)"
    using strip_sublist [of "collapse_hyphens ?f"] by (rule sublist_order.order_trans)
  then show False using no_double_collapse by blast
qed

lemma sanitize_steps_ends:
  "sanitize_steps t \<noteq> [] \<Longrightarrow>
     hd (sanitize_steps t) \<noteq> CHR ''-'' \<and> last (sanitize_steps t) \<noteq> CHR ''-''"
  unfolding sanitize_steps_def Let_def by (rule strip_ends)

lemma untitled_ok:
  "set ''untitled'' \<subseteq> set ''abcdefghijklmnopqrstuvwxyzABCDEFGHIJKLMNOPQRSTUVWXYZ0123456789-_''
   \<and> \<not> sublist ''--'' ''untitled''"
  by (simp add: sublist_Cons_right)

text \<open>
  C6. For every title, \<^const>\<open>sanitize_filename\<close> yields a string of ASCII letters,
  digits, hyphens and underscores only, with no two hyphens in a row and no hyphen at
  either end; it is never empty: it is the literal \<^verbatim>\<open>untitled\<close> when the four
  rewriting steps leave nothing, and their result otherwise. The four examples of the
  specification evaluate as stated.
\<close>

theorem sanitize_filename_ok:
  "set (sanitize_filename t)
     \<subseteq> set ''abcdefghijklmnopqrstuvwxyzABCDEFGHIJKLMNOPQRSTUVWXYZ0123456789-_''
   \<and> \<not> sublist ''--'' (sanitize_filename t)
   \<and> sanitize_filename t \<noteq> []
   \<and> hd (sanitize_filename t) \<noteq> CHR ''-'' \<and> last (sanitize_filename t) \<noteq> CHR ''-''
   \<and> sanitize_filename t = (if sanitize_steps t = [] then ''untitled'' else sanitize_steps t)
   \<and> sanitize_filename ''My Note Title'' = ''My-Note-Title''
   \<and> sanitize_filename ''test!@#$%^&*()note'' = ''testnote''
   \<and> sanitize_filename ''  spaced  note  '' = ''spaced-note''
   \<and> sanitize_filename '''' = ''untitled''"
proof -
  have eq: "sanitize_filename t = (if sanitize_steps t = [] then ''untitled'' else sanitize_steps t)"
    by (simp add: sanitize_filename_def Let_def)
  have general: "set (sanitize_filename t)
       \<subseteq> set ''abcdefghijklmnopqrstuvwxyzABCDEFGHIJKLMNOPQRSTUVWXYZ0123456789-_''
     \<and> \<not> sublist ''--'' (sanitize_filename t)
     \<and> sanitize_filename t \<noteq> []
     \<and> hd (sanitize_filename t) \<noteq> CHR ''-'' \<and> last (sanitize_filename t) \<noteq> CHR ''-''"
  proof (cases "sanitize_steps t = []")
    case True
    then have "sanitize_filename t = ''untitled''" by (simp add: eq)
    then show ?thesis using untitled_ok by simp
  next
    case False
    then have r: "sanitize_filename t = sanitize_steps t" by (simp add: eq)
    have "set (sanitize_steps t)
        \<subseteq> set ''abcdefghijklmnopqrstuvwxyzABCDEFGHIJKLMNOPQRSTUVWXYZ0123456789-_''"
      using sanitize_steps_chars [of t] filename_char_set1 by blast
    then show ?thesis
      using False sanitize_steps_no_double [of t] sanitize_steps_ends [of t] by (simp only: r) blast
  qed
  have e1: "sanitize_filename ''My Note Title'' = ''My-Note-Title''"
    by (simp add: sanitize_filename_def sanitize_steps_def strip_hyphens_def filename_char_def)
  have e2: "sanitize_filename ''test!@#$%^&*()note'' = ''testnote''"
    by (simp add: sanitize_filename_def sanitize_steps_def strip_hyphens_def filename_char_def)
  have e3: "sanitize_filename ''  spaced  note  '' = ''spaced-note''"
    by (simp add: sanitize_filename_def sanitize_steps_def strip_hyphens_def filename_char_def)
  have e4: "sanitize_filename '''' = ''untitled''"
    by (simp add: sanitize_filename_def sanitize_steps_def strip_hyphens_def filename_char_def)
  from general eq e1 e2 e3 e4 show ?thesis by - (elim conjE, intro conjI, assumption+)
qed

theorem sanitize_filename_witness:
  "sanitize_filename ''--Cafe notes!--'' = ''Cafe-notes''
   \<and> sanitize_steps ''--- !!'' = [] \<and> sanitize_filename ''--- !!'' = ''untitled''
   \<and> sanitize_filename ''untitled'' = ''untitled''"
proof -
  have s: "sanitize_steps ''--- !!'' = []"
    by (simp add: sanitize_steps_def strip_hyphens_def filename_char_def)
  have "sanitize_filename ''--- !!'' = ''untitled''"
    using sanitize_filename_ok [of "''--- !!''"] s by simp
  then show ?thesis using s
    by (simp add: sanitize_filename_def sanitize_steps_def strip_hyphens_def filename_char_def)
qed

subsection \<open>C8 and C10: which files are text\<close>

lemma printable_iff:
  "printable c \<longleftrightarrow> (32 \<le> c \<and> c \<le> 126) \<or> c = 9 \<or> c = 10 \<or> c = 13"
  unfolding printable_def by (auto simp: word_less_nat_alt word_le_nat_alt)

lemma filter_printable:
  "filter printable bs = filter (\<lambda>c. (32 \<le> c \<and> c \<le> 126) \<or> c = 9 \<or> c = 10 \<or> c = 13) bs"
  by (rule filter_cong) (simp_all add: printable_iff)

lemma empty_not_extension: "[] \<notin> set TEXT_EXTENSIONS"
  by (simp add: TEXT_EXTENSIONS_def)

text \<open>
  C8. When the suffix of the path, in lower case, is one of \<^const>\<open>TEXT_EXTENSIONS\<close>,
  \<^const>\<open>is_text_file\<close> is true and opens no file. When the path has no suffix and the
  file can be read, it opens that file once, looks at its first 512 bytes at most, and
  is true for no bytes at all, false when the bytes are not UTF-8, and otherwise true
  exactly when the share of the bytes that are printable ASCII (32 to 126), tab (9),
  newline (10) or carriage return (13) is above 0.8.
\<close>

theorem is_text_file_spec:
  "(py_lower (path_suffix p) \<in> set TEXT_EXTENSIONS \<longrightarrow> is_text_file e p = (True, []))
   \<and> (path_suffix p = [] \<longrightarrow> read_bytes e p = Inr content \<longrightarrow>
        snd (is_text_file e p) = [p]
        \<and> fst (is_text_file e p) =
            (let chunk = take 512 content
             in if chunk = [] then True
                else if \<not> utf8_decodes chunk then False
                else real (length (filter (\<lambda>c. (32 \<le> c \<and> c \<le> 126) \<or> c = 9 \<or> c = 10 \<or> c = 13)
                                     chunk))
                       / real (length chunk) > 8 / 10))"
  using empty_not_extension
  by (simp add: is_text_file_def Let_def printable_ratio_def filter_printable py_lower_def)

theorem is_text_file_spec_witness:
  "path_suffix (demo_dir @ [''TODO.TXT'']) = ''.TXT''
   \<and> is_text_file demo_env (demo_dir @ [''TODO.TXT'']) = (True, [])
   \<and> path_suffix (demo_dir @ [''README'']) = []
   \<and> read_bytes demo_env (demo_dir @ [''README'']) = Inr [0x48, 0x69, 0x0A]
   \<and> is_text_file demo_env (demo_dir @ [''README'']) = (True, [demo_dir @ [''README'']])
   \<and> is_text_file demo_env (demo_dir @ [''blob'']) = (False, [demo_dir @ [''blob'']])
   \<and> is_text_file demo_env (demo_dir @ [''empty'']) = (True, [demo_dir @ [''empty'']])"
proof -
  have 1: "py_lower (path_suffix (demo_dir @ [''TODO.TXT''])) \<in> set TEXT_EXTENSIONS"
    by (simp add: path_suffix_def path_name_def rfind_dot_def py_lower_def py_lower_char_def
        TEXT_EXTENSIONS_def)
  have 2: "is_text_file demo_env (demo_dir @ [''TODO.TXT'']) = (True, [])"
    using is_text_file_spec [of "demo_dir @ [''TODO.TXT'']" demo_env] 1 by simp
  have 3: "path_suffix (demo_dir @ [''README'']) = []"
    by (simp add: path_suffix_def path_name_def rfind_dot_def)
  have 4: "read_bytes demo_env (demo_dir @ [''README'']) = Inr [0x48, 0x69, 0x0A]"
    by (simp add: demo_env_def)
  have 5: "is_text_file demo_env (demo_dir @ [''README'']) = (True, [demo_dir @ [''README'']])"
    using is_text_file_spec [of "demo_dir @ [''README'']" demo_env "[0x48, 0x69, 0x0A]"] 3 4
    by (simp add: prod_eq_iff)
  have 6: "is_text_file demo_env (demo_dir @ [''blob'']) = (False, [demo_dir @ [''blob'']])"
    by (simp add: is_text_file_def path_suffix_def path_name_def rfind_dot_def demo_env_def
        demo_dir_def py_lower_def TEXT_EXTENSIONS_def)
  have 7: "is_text_file demo_env (demo_dir @ [''empty'']) = (True, [demo_dir @ [''empty'']])"
    by (simp add: is_text_file_def path_suffix_def path_name_def rfind_dot_def demo_env_def
        demo_dir_def py_lower_def TEXT_EXTENSIONS_def)
  have 8: "path_suffix (demo_dir @ [''TODO.TXT'']) = ''.TXT''"
    by (simp add: path_suffix_def path_name_def rfind_dot_def)
  from 8 2 3 4 5 6 7 show ?thesis by (intro conjI)
qed

text \<open>
  C10. When the path has a suffix and that suffix, in lower case, is not one of
  \<^const>\<open>TEXT_EXTENSIONS\<close>, \<^const>\<open>is_text_file\<close> is false and opens no file: the
  content is looked at for a path without suffix only.
\<close>

theorem is_text_file_other_extension:
  "path_suffix p \<noteq> [] \<Longrightarrow> py_lower (path_suffix p) \<notin> set TEXT_EXTENSIONS \<Longrightarrow>
     is_text_file e p = (False, [])"
  by (simp add: is_text_file_def)

theorem is_text_file_other_extension_witness:
  "path_suffix (demo_dir @ [''photo.png'']) = ''.png''
   \<and> py_lower ''.png'' \<notin> set TEXT_EXTENSIONS
   \<and> is_text_file demo_env (demo_dir @ [''photo.png'']) = (False, [])"
proof -
  have 1: "path_suffix (demo_dir @ [''photo.png'']) = ''.png''"
    by (simp add: path_suffix_def path_name_def rfind_dot_def)
  have 2: "py_lower ''.png'' \<notin> set TEXT_EXTENSIONS"
    by (simp add: py_lower_def py_lower_char_def TEXT_EXTENSIONS_def)
  have "is_text_file demo_env (demo_dir @ [''photo.png'']) = (False, [])"
    by (rule is_text_file_other_extension) (simp_all add: 1 2)
  with 1 2 show ?thesis by (intro conjI)
qed

subsection \<open>C9: the path of a new note\<close>

lemma free_path_loop_finds:
  assumes "c \<le> k"
    and "\<forall>j. c \<le> j \<and> j < k \<longrightarrow> path_exists e (note_candidate dir stem j) = Inr True"
    and "path_exists e (note_candidate dir stem k) = Inr False"
  shows "free_path_loop e dir stem (note_candidate dir stem c) (c + 1)
           = Some (Inr (note_candidate dir stem k))"
  using assms
proof (induction "k - c" arbitrary: c)
  case 0
  then have "c = k" by simp
  with "0.prems"(3) show ?case by (subst free_path_loop.simps) simp
next
  case (Suc n)
  then have lt: "c < k" by simp
  with Suc.prems(2) have ex: "path_exists e (note_candidate dir stem c) = Inr True" by simp
  have "free_path_loop e dir stem (note_candidate dir stem (c + 1)) (c + 1 + 1)
      = Some (Inr (note_candidate dir stem k))"
  proof (rule Suc.hyps(1))
    show "n = k - (c + 1)" using Suc.hyps(2) by simp
    show "c + 1 \<le> k" using lt by simp
    show "\<forall>j. c + 1 \<le> j \<and> j < k \<longrightarrow> path_exists e (note_candidate dir stem j) = Inr True"
      using Suc.prems(2) by simp
    show "path_exists e (note_candidate dir stem k) = Inr False" by (rule Suc.prems(3))
  qed
  then show ?case using ex
    by (subst free_path_loop.simps) (simp add: note_candidate_def)
qed

lemma free_path_loop_returns:
  assumes "c \<le> k" and "path_exists e (note_candidate dir stem k) \<noteq> Inr True"
  shows "free_path_loop e dir stem (note_candidate dir stem c) (c + 1) \<noteq> None"
  using assms
proof (induction "k - c" arbitrary: c)
  case 0
  then have "c = k" by simp
  with "0.prems"(2) show ?case
    by (subst free_path_loop.simps) (auto split: sum.splits)
next
  case (Suc n)
  have "free_path_loop e dir stem (note_candidate dir stem (c + 1)) (c + 1 + 1) \<noteq> None"
  proof (rule Suc.hyps(1))
    show "n = k - (c + 1)" using Suc.hyps(2) by simp
    show "c + 1 \<le> k" using Suc.hyps(2) by simp
    show "path_exists e (note_candidate dir stem k) \<noteq> Inr True" by (rule Suc.prems(2))
  qed
  then show ?case
    by (subst free_path_loop.simps) (auto simp: note_candidate_def split: sum.splits)
qed

text \<open>
  C9. The loop of \<^verbatim>\<open>create_note\<close> returns \<^verbatim>\<open>dir/stem.md\<close> when that path does not
  exist. When it exists, and \<open>k\<close> is the least positive number whose path
  \<^verbatim>\<open>dir/stem-k.md\<close> does not exist (all of \<^verbatim>\<open>stem-1.md\<close> to \<^verbatim>\<open>stem-(k-1).md\<close> do),
  it returns \<^verbatim>\<open>dir/stem-k.md\<close>. It returns (the value is not \<open>None\<close>) as soon as some
  candidate is free. With \<^verbatim>\<open>stem.md\<close> and \<^verbatim>\<open>stem-1.md\<close> there and \<^verbatim>\<open>stem-2.md\<close> not,
  the result is \<^verbatim>\<open>stem-2.md\<close>.
\<close>

theorem note_path_first_free:
  "(path_exists e (path_join dir (stem @ ''.md'')) = Inr False \<longrightarrow>
      note_path e dir stem = Some (Inr (path_join dir (stem @ ''.md''))))
   \<and> (path_exists e (path_join dir (stem @ ''.md'')) = Inr True \<and> 0 < k
        \<and> (\<forall>j. 0 < j \<and> j < k \<longrightarrow>
               path_exists e (path_join dir (stem @ ''-'' @ str_nat j @ ''.md'')) = Inr True)
        \<and> path_exists e (path_join dir (stem @ ''-'' @ str_nat k @ ''.md'')) = Inr False \<longrightarrow>
      note_path e dir stem = Some (Inr (path_join dir (stem @ ''-'' @ str_nat k @ ''.md''))))
   \<and> ((\<exists>n. path_exists e (note_candidate dir stem n) = Inr False) \<longrightarrow>
        note_path e dir stem \<noteq> None)
   \<and> (path_exists e (path_join dir (stem @ ''.md'')) = Inr True
        \<and> path_exists e (path_join dir (stem @ ''-1.md'')) = Inr True
        \<and> path_exists e (path_join dir (stem @ ''-2.md'')) = Inr False \<longrightarrow>
      note_path e dir stem = Some (Inr (path_join dir (stem @ ''-2.md''))))"
proof -
  have start: "note_path e dir stem = free_path_loop e dir stem (note_candidate dir stem 0) (0 + 1)"
    by (simp add: note_path_def note_candidate_def)
  have A: "note_path e dir stem = Some (Inr (path_join dir (stem @ ''.md'')))"
    if "path_exists e (path_join dir (stem @ ''.md'')) = Inr False"
    using that free_path_loop_finds [of 0 0 e dir stem]
    by (simp add: start) (simp add: note_candidate_def)
  have B: "note_path e dir stem = Some (Inr (path_join dir (stem @ ''-'' @ str_nat m @ ''.md'')))"
    if "path_exists e (path_join dir (stem @ ''.md'')) = Inr True" "0 < m"
      "\<forall>j. 0 < j \<and> j < m \<longrightarrow>
            path_exists e (path_join dir (stem @ ''-'' @ str_nat j @ ''.md'')) = Inr True"
      "path_exists e (path_join dir (stem @ ''-'' @ str_nat m @ ''.md'')) = Inr False"
    for m
  proof -
    have "\<forall>j. 0 \<le> j \<and> j < m \<longrightarrow> path_exists e (note_candidate dir stem j) = Inr True"
      using that(1,3) by (simp add: note_candidate_def)
    moreover have "path_exists e (note_candidate dir stem m) = Inr False"
      using that(2,4) by (simp add: note_candidate_def)
    ultimately have "free_path_loop e dir stem (note_candidate dir stem 0) (0 + 1)
        = Some (Inr (note_candidate dir stem m))"
      by (intro free_path_loop_finds) simp_all
    then show ?thesis using that(2) by (simp add: start note_candidate_def)
  qed
  have C: "note_path e dir stem \<noteq> None"
    if "\<exists>n. path_exists e (note_candidate dir stem n) = Inr False"
  proof -
    from that obtain n where "path_exists e (note_candidate dir stem n) = Inr False" ..
    then have "path_exists e (note_candidate dir stem n) \<noteq> Inr True" by simp
    then have "free_path_loop e dir stem (note_candidate dir stem 0) (0 + 1) \<noteq> None"
      by (intro free_path_loop_returns [where k = n]) simp_all
    then show ?thesis by (simp add: start)
  qed
  have D: "note_path e dir stem = Some (Inr (path_join dir (stem @ ''-2.md'')))"
    if "path_exists e (path_join dir (stem @ ''.md'')) = Inr True"
      "path_exists e (path_join dir (stem @ ''-1.md'')) = Inr True"
      "path_exists e (path_join dir (stem @ ''-2.md'')) = Inr False"
  proof -
    have "\<forall>j. 0 < j \<and> j < (2::nat) \<longrightarrow>
        path_exists e (path_join dir (stem @ ''-'' @ str_nat j @ ''.md'')) = Inr True"
    proof (intro allI impI)
      fix j :: nat
      assume "0 < j \<and> j < 2"
      then have "j = 1" by simp
      then show "path_exists e (path_join dir (stem @ ''-'' @ str_nat j @ ''.md'')) = Inr True"
        using that(2) by (simp add: str_nat.simps)
    qed
    moreover have "path_exists e (path_join dir (stem @ ''-'' @ str_nat 2 @ ''.md'')) = Inr False"
      using that(3) by (simp add: str_nat.simps)
    ultimately have
      "note_path e dir stem = Some (Inr (path_join dir (stem @ ''-'' @ str_nat 2 @ ''.md'')))"
      using that(1) by (intro B) simp_all
    then show ?thesis by (simp add: str_nat.simps)
  qed
  from A B [of k] C D show ?thesis by blast
qed

theorem note_path_witness:
  "path_exists demo_env (path_join demo_dir ''notes.md'') = Inr True
   \<and> path_exists demo_env (path_join demo_dir ''notes-1.md'') = Inr True
   \<and> path_exists demo_env (path_join demo_dir ''notes-2.md'') = Inr False
   \<and> note_path demo_env demo_dir ''notes'' = Some (Inr [''home'', ''user'', ''notes-2.md''])
   \<and> path_exists demo_env (path_join demo_dir ''ideas.md'') = Inr False
   \<and> note_path demo_env demo_dir ''ideas'' = Some (Inr [''home'', ''user'', ''ideas.md''])"
proof -
  have 1: "path_exists demo_env (path_join demo_dir (''notes'' @ ''.md'')) = Inr True"
    by (simp add: demo_env_def demo_dir_def demo_dirs_def demo_files_def path_join_def)
  have 2: "path_exists demo_env (path_join demo_dir (''notes'' @ ''-1.md'')) = Inr True"
    by (simp add: demo_env_def demo_dir_def demo_dirs_def demo_files_def path_join_def)
  have 3: "path_exists demo_env (path_join demo_dir (''notes'' @ ''-2.md'')) = Inr False"
    by (simp add: demo_env_def demo_dir_def demo_dirs_def demo_files_def path_join_def)
  have 4: "path_exists demo_env (path_join demo_dir (''ideas'' @ ''.md'')) = Inr False"
    by (simp add: demo_env_def demo_dir_def demo_dirs_def demo_files_def path_join_def)
  have 5: "note_path demo_env demo_dir ''notes''
      = Some (Inr (path_join demo_dir (''notes'' @ ''-2.md'')))"
    using note_path_first_free [of demo_env demo_dir "''notes''" 2] 1 2 3 by blast
  have 6: "note_path demo_env demo_dir ''ideas''
      = Some (Inr (path_join demo_dir (''ideas'' @ ''.md'')))"
    using note_path_first_free [of demo_env demo_dir "''ideas''" 1] 4 by blast
  from 1 2 3 4 5 6 show ?thesis by (simp add: path_join_def demo_dir_def)
qed

subsection \<open>C2: the search\<close>

text \<open>Sorting the pairs \<^verbatim>\<open>(score, item)\<close> by their first component and dropping the
  scores is sorting the items by their score.\<close>

lemma insort_key_decorated:
  "\<forall>p\<in>set ps. fst p = f (snd p) \<Longrightarrow>
     map snd (insort_key fst (f x, x) ps) = insort_key f x (map snd ps)"
  by (induction ps) auto

lemma sort_key_decorated:
  "map snd (sort_key fst (map (\<lambda>x. (f x, x)) xs)) = sort_key f xs"
proof (induction xs)
  case Nil
  then show ?case by simp
next
  case (Cons x xs)
  have "\<forall>p\<in>set (sort_key fst (map (\<lambda>x. (f x, x)) xs)). fst p = f (snd p)" by auto
  then show ?case using Cons.IH by (simp add: insort_key_decorated)
qed

lemma sort_reverse_decorated:
  "map snd (sort_reverse fst (map (\<lambda>x. (f x, x)) xs)) = sort_reverse f xs"
proof -
  have "map snd (sort_reverse fst (map (\<lambda>x. (f x, x)) xs))
      = rev (map snd (sort_key fst (map (\<lambda>x. (f x, x)) (rev xs))))"
    by (simp only: sort_reverse_def rev_map)
  then show ?thesis by (simp only: sort_key_decorated sort_reverse_def)
qed

lemma handle_search_filtered:
  "query \<noteq> [] \<Longrightarrow>
     filtered_items (handle_search e st query)
       = sort_reverse (search_score e query) (filter (\<lambda>item. 40 < search_score e query item) (items st))"
  by (simp add: handle_search_def Let_def sort_reverse_decorated)

lemma mset_sort_reverse: "mset (sort_reverse f xs) = mset xs"
  by (simp add: sort_reverse_def)

lemma sorted_sort_reverse: "sorted_wrt (\<ge>) (map f (sort_reverse f xs))"
proof -
  have "sorted (map f (sort_key f (rev xs)))" by (rule sorted_sort_key)
  then have "sorted_wrt (\<ge>) (rev (map f (sort_key f (rev xs))))"
    by (simp add: sorted_wrt_rev)
  then show ?thesis by (simp add: sort_reverse_def rev_map)
qed

lemma sort_reverse_stable:
  "filter (\<lambda>y. f y = k) (sort_reverse f xs) = filter (\<lambda>y. f y = k) xs"
proof -
  have "filter (\<lambda>y. f y = k) (sort_reverse f xs)
      = rev (filter (\<lambda>y. f y = k) (sort_key f (rev xs)))"
    by (simp add: sort_reverse_def rev_filter)
  also have "\<dots> = rev (filter (\<lambda>y. f y = k) (rev xs))" by (simp only: sort_key_stable)
  also have "\<dots> = filter (\<lambda>y. f y = k) xs" by (simp add: rev_filter)
  finally show ?thesis .
qed

text \<open>
  C2 says that the result of the search is a subsequence of the items. It is not, since
  the result is sorted by score: in the example the items hold \<^verbatim>\<open>notes-1.md\<close> before
  \<^verbatim>\<open>notes.md\<close>, the query \<^verbatim>\<open>notes.md\<close> scores 100 against \<^verbatim>\<open>notes.md\<close> and 800/9
  against \<^verbatim>\<open>notes-1.md\<close>, and the result holds \<^verbatim>\<open>notes.md\<close> first.
\<close>

theorem handle_search_not_subseq:
  "''notes.md'' \<noteq> []
   \<and> items demo_state = demo_items
   \<and> search_score demo_env ''notes.md'' (''notes.md'', False, [''home'', ''user'', ''notes.md''])
       = 100
   \<and> search_score demo_env ''notes.md''
         (''notes-1.md'', False, [''home'', ''user'', ''notes-1.md''])
       = 800 / 9
   \<and> filtered_items (handle_search demo_env demo_state ''notes.md'')
       = [(''notes.md'', False, [''home'', ''user'', ''notes.md'']),
          (''notes-1.md'', False, [''home'', ''user'', ''notes-1.md''])]
   \<and> \<not> subseq (filtered_items (handle_search demo_env demo_state ''notes.md''))
           (items demo_state)"
proof -
  have it: "items demo_state = demo_items"
    by (simp add: demo_state_def init_explorer_def)
  have s1: "search_score demo_env ''notes.md''
      (''notes.md'', False, [''home'', ''user'', ''notes.md'']) = 100"
    by (simp add: search_score_def demo_env_def indel_ratio_def py_lower_def py_lower_char_def)
  have s2: "search_score demo_env ''notes.md''
      (''notes-1.md'', False, [''home'', ''user'', ''notes-1.md'']) = 800 / 9"
    by (simp add: search_score_def demo_env_def indel_ratio_def py_lower_def py_lower_char_def)
  have ev: "filtered_items (handle_search demo_env demo_state ''notes.md'')
      = [(''notes.md'', False, [''home'', ''user'', ''notes.md'']),
         (''notes-1.md'', False, [''home'', ''user'', ''notes-1.md''])]"
    by code_simp
  have ns: "\<not> subseq [(''notes.md'', False, [''home'', ''user'', ''notes.md'']),
         (''notes-1.md'', False, [''home'', ''user'', ''notes-1.md''])] demo_items"
    by (simp add: demo_items_def)
  from ns have "\<not> subseq (filtered_items (handle_search demo_env demo_state ''notes.md''))
      (items demo_state)"
    by (simp add: ev it)
  with it s1 s2 ev show ?thesis by (intro conjI) simp_all
qed

text \<open>
  C2, as amended. For every non-empty query, with \<open>score item\<close> the similarity of the
  query and the display name of the item, both in lower case: the result of
  \<^const>\<open>handle_search\<close> is a rearrangement of the subsequence \<open>kept\<close> of \<^const>\<open>items\<close>
  whose score is above 40 (the same items, each as often, in general not in the order of
  \<^const>\<open>items\<close>); every retained item has a score above 40; the scores do not increase
  along the result; and for every score the retained items with that score stand in the
  order they have in \<^const>\<open>items\<close> (the sort is stable).
\<close>

theorem handle_search_ranked:
  assumes "query \<noteq> []"
  shows "(let r = filtered_items (handle_search e st query);
              score = (\<lambda>item. fuzz_ratio e (str_lower e query) (str_lower e (fst item)));
              kept = filter (\<lambda>item. 40 < score item) (items st)
          in subseq kept (items st) \<and> mset r = mset kept
             \<and> (\<forall>item \<in> set r. 40 < score item)
             \<and> sorted_wrt (\<ge>) (map score r)
             \<and> (\<forall>s. filter (\<lambda>item. score item = s) r = filter (\<lambda>item. score item = s) kept))"
proof -
  let ?score = "search_score e query"
  let ?kept = "filter (\<lambda>item. 40 < ?score item) (items st)"
  let ?r = "filtered_items (handle_search e st query)"
  have r: "?r = sort_reverse ?score ?kept" using assms by (rule handle_search_filtered)
  have 1: "subseq ?kept (items st)" by simp
  have 2: "mset ?r = mset ?kept" by (simp only: r mset_sort_reverse)
  then have "set ?r = set ?kept" by (rule mset_eq_setD)
  then have 3: "\<forall>item \<in> set ?r. 40 < ?score item" by simp
  have 4: "sorted_wrt (\<ge>) (map ?score ?r)" by (simp only: r sorted_sort_reverse)
  have 5: "\<forall>s. filter (\<lambda>item. ?score item = s) ?r = filter (\<lambda>item. ?score item = s) ?kept"
    by (simp add: r sort_reverse_stable)
  have score: "?score = (\<lambda>item. fuzz_ratio e (str_lower e query) (str_lower e (fst item)))"
    by (rule ext) (simp add: search_score_def)
  from 1 2 3 4 5 show ?thesis unfolding Let_def score by (intro conjI)
qed

theorem handle_search_ranked_witness:
  "''readme'' \<noteq> []
   \<and> filtered_items (handle_search demo_env demo_state ''readme'')
       = [(''README'', False, [''home'', ''user'', ''README''])]
   \<and> mset (filtered_items (handle_search demo_env demo_state ''readme''))
       = mset (filter (\<lambda>item. 40 < fuzz_ratio demo_env (str_lower demo_env ''readme'')
                                       (str_lower demo_env (fst item)))
                 (items demo_state))
   \<and> sorted_wrt (\<ge>)
         (map (\<lambda>item. fuzz_ratio demo_env (str_lower demo_env ''readme'')
                        (str_lower demo_env (fst item)))
            (filtered_items (handle_search demo_env demo_state ''readme'')))"
proof -
  have ne: "''readme'' \<noteq> []" by simp
  have ev: "filtered_items (handle_search demo_env demo_state ''readme'')
      = [(''README'', False, [''home'', ''user'', ''README''])]"
    by code_simp
  have "mset (filtered_items (handle_search demo_env demo_state ''readme''))
      = mset (filter (\<lambda>item. 40 < fuzz_ratio demo_env (str_lower demo_env ''readme'')
                                      (str_lower demo_env (fst item)))
                (items demo_state))
    \<and> sorted_wrt (\<ge>)
         (map (\<lambda>item. fuzz_ratio demo_env (str_lower demo_env ''readme'')
                        (str_lower demo_env (fst item)))
            (filtered_items (handle_search demo_env demo_state ''readme'')))"
    using handle_search_ranked [OF ne, of demo_env demo_state] by (simp only: Let_def)
  with ne ev show ?thesis by (intro conjI) simp_all
qed

subsection \<open>C4: the scan of a directory\<close>

lemma parent_entry_root:
  "parent_entry p = (if p = [] then [] else [(''../'', True, butlast p)])"
proof (cases "p = []")
  case True
  then show ?thesis by (simp add: parent_entry_def path_parent_def)
next
  case False
  have "p \<noteq> butlast p"
  proof
    assume "p = butlast p"
    then have "length p = length (butlast p)" by (rule arg_cong)
    then have "length p = length p - 1" by (simp only: length_butlast)
    moreover from False have "0 < length p" by simp
    ultimately show False by arith
  qed
  with False show ?thesis by (simp add: parent_entry_def path_parent_def)
qed

lemma starts_with_dot: "take (Suc 0) name = ''.'' \<longleftrightarrow> prefix ''.'' name"
  by (cases name) auto

lemma scan_item_cases:
  "scan_item e dir name =
     (if prefix ''.'' name then []
      else if path_is_dir e (dir @ [name]) = Inr True then [(name @ ''/'', True, dir @ [name])]
      else if path_is_dir e (dir @ [name]) = Inr False
              \<and> path_is_file e (dir @ [name]) = Inr True
              \<and> fst (is_text_file e (dir @ [name]))
           then [(name, False, dir @ [name])]
      else [])"
  by (simp add: scan_item_def Let_def path_join_def starts_with_dot split: sum.splits)

lemma scan_item_dirs:
  "{x \<in> set (scan_item e dir name). fst (snd x)}
     = {x. x = (name @ ''/'', True, dir @ [name]) \<and> \<not> prefix ''.'' name
           \<and> path_is_dir e (dir @ [name]) = Inr True}"
  by (auto simp: scan_item_cases)

lemma scan_item_files:
  "{x \<in> set (scan_item e dir name). \<not> fst (snd x)}
     = {x. x = (name, False, dir @ [name]) \<and> \<not> prefix ''.'' name
           \<and> path_is_dir e (dir @ [name]) = Inr False
           \<and> path_is_file e (dir @ [name]) = Inr True
           \<and> fst (is_text_file e (dir @ [name]))}"
  by (auto simp: scan_item_cases)

lemma entry_key_le_dir:
  "entry_key e x \<le> entry_key e y \<Longrightarrow> \<not> fst (snd x) \<Longrightarrow> \<not> fst (snd y)"
  unfolding entry_key_def less_eq_prod_simp by simp

lemma entry_key_le_name:
  "entry_key e x \<le> entry_key e y \<Longrightarrow> fst (snd x) = fst (snd y) \<Longrightarrow>
     str_lower e (fst x) \<le> str_lower e (fst y)"
  unfolding entry_key_def less_eq_prod_simp by simp

lemma sorted_dirs_first:
  "sorted (map (entry_key e) xs) \<Longrightarrow>
     xs = filter (\<lambda>x. fst (snd x)) xs @ filter (\<lambda>x. \<not> fst (snd x)) xs"
proof (induction xs)
  case Nil
  then show ?case by simp
next
  case (Cons x xs)
  then have IH: "xs = filter (\<lambda>x. fst (snd x)) xs @ filter (\<lambda>x. \<not> fst (snd x)) xs"
    and le: "\<forall>y\<in>set xs. entry_key e x \<le> entry_key e y"
    by simp_all
  show ?case
  proof (cases "fst (snd x)")
    case True
    then show ?thesis using IH by simp
  next
    case False
    with le have "\<forall>y\<in>set xs. \<not> fst (snd y)" using entry_key_le_dir by blast
    then have "filter (\<lambda>x. fst (snd x)) xs = []" and "filter (\<lambda>x. \<not> fst (snd x)) xs = xs"
      by (simp_all add: filter_empty_conv filter_id_conv)
    with False show ?thesis by simp
  qed
qed

lemma sorted_group_names:
  assumes "sorted (map (entry_key e) xs)"
  shows "sorted (map (\<lambda>x. str_lower e (fst x)) (filter (\<lambda>x. fst (snd x) = b) xs))"
proof -
  let ?g = "filter (\<lambda>x. fst (snd x) = b) xs"
  from assms have "sorted (map (entry_key e) ?g)" by (rule sorted_filter)
  then have "sorted_wrt (\<lambda>x y. entry_key e x \<le> entry_key e y) ?g" by (simp only: sorted_map)
  then have "sorted_wrt (\<lambda>x y. str_lower e (fst x) \<le> str_lower e (fst y)) ?g"
  proof (rule sorted_wrt_mono_rel [rotated])
    fix x y
    assume "x \<in> set ?g" "y \<in> set ?g" "entry_key e x \<le> entry_key e y"
    then show "str_lower e (fst x) \<le> str_lower e (fst y)" by (intro entry_key_le_name) simp_all
  qed
  then show ?thesis by (simp only: sorted_map)
qed

text \<open>
  C4. When the directory can be listed, \<^const>\<open>scan_directory\<close> returns, and the items
  are: first the entry \<^verbatim>\<open>../\<close> of the parent, present exactly when the directory is
  not the root; then the directory entries \<open>ds\<close>; then the file entries \<open>fs\<close>. No
  child whose name starts with a dot has an entry; \<open>ds\<close> holds exactly the other
  children that \<^verbatim>\<open>is_dir\<close> accepts; \<open>fs\<close> holds exactly the other children that are
  files and that \<^const>\<open>is_text_file\<close> accepts (a child whose test raises is skipped).
  Each group is sorted by its display names in lower case (\<^verbatim>\<open>str.lower\<close>, whatever it
  does to the characters outside ASCII). When listing the directory
  raises a permission error, the items are the entry of the parent alone.
\<close>

theorem scan_directory_spec:
  "(path_iterdir e (current_path st) = Inr names \<longrightarrow>
      (\<exists>st' ds fs.
         scan_directory e st = Return st'
         \<and> items st' =
             (if current_path st = [] then [] else [(''../'', True, butlast (current_path st))])
             @ ds @ fs
         \<and> set ds = {x. \<exists>name \<in> set names. x = (name @ ''/'', True, current_path st @ [name])
                        \<and> \<not> prefix ''.'' name
                        \<and> path_is_dir e (current_path st @ [name]) = Inr True}
         \<and> set fs = {x. \<exists>name \<in> set names. x = (name, False, current_path st @ [name])
                        \<and> \<not> prefix ''.'' name
                        \<and> path_is_dir e (current_path st @ [name]) = Inr False
                        \<and> path_is_file e (current_path st @ [name]) = Inr True
                        \<and> fst (is_text_file e (current_path st @ [name]))}
         \<and> sorted (map (\<lambda>x. str_lower e (fst x)) ds)
         \<and> sorted (map (\<lambda>x. str_lower e (fst x)) fs)))
   \<and> (path_iterdir e (current_path st) = Inl PermissionError \<longrightarrow>
        (\<exists>st'. scan_directory e st = Return st'
           \<and> items st' =
               (if current_path st = [] then [] else [(''../'', True, butlast (current_path st))])))"
proof (intro conjI impI)
  assume ls: "path_iterdir e (current_path st) = Inr names"
  let ?dir = "current_path st"
  let ?entries = "concat (map (scan_item e ?dir) names)"
  let ?sorted = "sort_key (entry_key e) ?entries"
  let ?ds = "filter (\<lambda>x. fst (snd x) = True) ?sorted"
  let ?fs = "filter (\<lambda>x. fst (snd x) = False) ?sorted"
  let ?st' = "reset_cursor (st\<lparr>items := parent_entry ?dir @ ?sorted\<rparr>)"
  have srt: "sorted (map (entry_key e) ?sorted)" by (rule sorted_sort_key)
  have ret: "scan_directory e st = Return ?st'"
    using ls by (simp add: scan_directory_def Let_def)
  have "?sorted = ?ds @ ?fs" using sorted_dirs_first [OF srt] by simp
  then have "items ?st' = parent_entry ?dir @ ?ds @ ?fs"
    by (simp add: reset_cursor_def)
  then have its: "items ?st' = (if ?dir = [] then [] else [(''../'', True, butlast ?dir)]) @ ?ds @ ?fs"
    by (simp only: parent_entry_root)
  have "set ?ds = (\<Union>name \<in> set names. {x \<in> set (scan_item e ?dir name). fst (snd x)})"
    by auto
  then have ds: "set ?ds = {x. \<exists>name \<in> set names. x = (name @ ''/'', True, ?dir @ [name])
                        \<and> \<not> prefix ''.'' name \<and> path_is_dir e (?dir @ [name]) = Inr True}"
    by (simp only: scan_item_dirs) blast
  have "set ?fs = (\<Union>name \<in> set names. {x \<in> set (scan_item e ?dir name). \<not> fst (snd x)})"
    by auto
  then have fs: "set ?fs = {x. \<exists>name \<in> set names. x = (name, False, ?dir @ [name])
                        \<and> \<not> prefix ''.'' name
                        \<and> path_is_dir e (?dir @ [name]) = Inr False
                        \<and> path_is_file e (?dir @ [name]) = Inr True
                        \<and> fst (is_text_file e (?dir @ [name]))}"
    by (simp only: scan_item_files) blast
  have s1: "sorted (map (\<lambda>x. str_lower e (fst x)) ?ds)" using srt by (rule sorted_group_names)
  have s2: "sorted (map (\<lambda>x. str_lower e (fst x)) ?fs)" using srt by (rule sorted_group_names)
  from ret its ds fs s1 s2
  show "\<exists>st' ds fs.
         scan_directory e st = Return st'
         \<and> items st' =
             (if current_path st = [] then [] else [(''../'', True, butlast (current_path st))])
             @ ds @ fs
         \<and> set ds = {x. \<exists>name \<in> set names. x = (name @ ''/'', True, current_path st @ [name])
                        \<and> \<not> prefix ''.'' name
                        \<and> path_is_dir e (current_path st @ [name]) = Inr True}
         \<and> set fs = {x. \<exists>name \<in> set names. x = (name, False, current_path st @ [name])
                        \<and> \<not> prefix ''.'' name
                        \<and> path_is_dir e (current_path st @ [name]) = Inr False
                        \<and> path_is_file e (current_path st @ [name]) = Inr True
                        \<and> fst (is_text_file e (current_path st @ [name]))}
         \<and> sorted (map (\<lambda>x. str_lower e (fst x)) ds)
         \<and> sorted (map (\<lambda>x. str_lower e (fst x)) fs)"
    by (intro exI [of _ ?st'] exI [of _ ?ds] exI [of _ ?fs] conjI)
next
  assume "path_iterdir e (current_path st) = Inl PermissionError"
  then show "\<exists>st'. scan_directory e st = Return st'
           \<and> items st' =
               (if current_path st = [] then [] else [(''../'', True, butlast (current_path st))])"
    by (simp add: scan_directory_def Let_def reset_cursor_def parent_entry_root)
qed

theorem scan_directory_spec_witness:
  "path_iterdir demo_env (current_path (init_explorer demo_dir)) = Inr demo_listing
   \<and> scan_directory demo_env (init_explorer demo_dir) = Return demo_state
   \<and> (\<exists>ds fs. items demo_state = [(''../'', True, [''home''])] @ ds @ fs
          \<and> sorted (map (\<lambda>x. str_lower demo_env (fst x)) ds)
          \<and> sorted (map (\<lambda>x. str_lower demo_env (fst x)) fs))"
proof -
  have ls: "path_iterdir demo_env (current_path (init_explorer demo_dir)) = Inr demo_listing"
    by (simp add: demo_env_def init_explorer_def)
  have ev: "scan_directory demo_env (init_explorer demo_dir) = Return demo_state"
    by code_simp
  have dir: "(if current_path (init_explorer demo_dir) = [] then []
       else [(''../'', True, butlast (current_path (init_explorer demo_dir)))])
     = [(''../'', True, [''home''])]"
    by (simp add: init_explorer_def demo_dir_def)
  from scan_directory_spec [of demo_env "init_explorer demo_dir" demo_listing, THEN conjunct1,
      rule_format, OF ls]
  obtain st' ds fs where 1: "scan_directory demo_env (init_explorer demo_dir) = Return st'"
    and 2: "items st' =
      (if current_path (init_explorer demo_dir) = [] then []
       else [(''../'', True, butlast (current_path (init_explorer demo_dir)))]) @ ds @ fs"
    and 3: "sorted (map (\<lambda>x. str_lower demo_env (fst x)) ds)"
    and 4: "sorted (map (\<lambda>x. str_lower demo_env (fst x)) fs)"
    by (elim exE conjE)
  from 1 ev have "st' = demo_state" by simp
  with 2 have "items demo_state = [(''../'', True, [''home''])] @ ds @ fs"
    by (simp only: dir)
  with 3 4 have "\<exists>ds fs. items demo_state = [(''../'', True, [''home''])] @ ds @ fs
      \<and> sorted (map (\<lambda>x. str_lower demo_env (fst x)) ds) \<and> sorted (map (\<lambda>x. str_lower demo_env (fst x)) fs)"
    by (intro exI conjI)
  with ls ev show ?thesis by (intro conjI)
qed

subsection \<open>C7: the cursor stays inside the list\<close>

lemma and_then_Return:
  "and_then r f = Return x \<longleftrightarrow> (\<exists>y. r = Return y \<and> f y = Return x)"
  by (cases r) simp_all

lemma cursor_ok_cong:
  "cursor_position a = cursor_position b \<Longrightarrow> items a = items b \<Longrightarrow>
     filtered_items a = filtered_items b \<Longrightarrow> search_mode a = search_mode b \<Longrightarrow>
     cursor_ok a = cursor_ok b"
  by (simp add: cursor_ok_def active_list_def)

lemma cursor_ok_note:
  "cursor_ok (st\<lparr>note_mode := b\<rparr>) = cursor_ok st"
  "cursor_ok (st\<lparr>note_title := t\<rparr>) = cursor_ok st"
  by (rule cursor_ok_cong; simp)+

lemma reset_cursor_ok:
  assumes "\<not> search_mode s \<or> cursor_ok s"
  shows "cursor_ok (reset_cursor (s\<lparr>items := xs\<rparr>))"
proof (cases "search_mode s")
  case False
  then show ?thesis
    by (auto simp: cursor_ok_def active_list_def reset_cursor_def)
next
  case True
  with assms have "cursor_ok s" by simp
  with True show ?thesis
    by (auto simp: cursor_ok_def active_list_def reset_cursor_def split: if_splits)
qed

lemma scan_directory_cursor_ok:
  assumes "scan_directory e st = Return st'" and "\<not> search_mode st \<or> cursor_ok st"
  shows "cursor_ok st'"
proof -
  have *: "\<not> search_mode (st\<lparr>items := ys\<rparr>) \<or> cursor_ok (st\<lparr>items := ys\<rparr>)" for ys
    using assms(2) by (auto simp: cursor_ok_def active_list_def)
  from assms(1) obtain xs where "st' = reset_cursor (st\<lparr>items := xs\<rparr>)"
    by (auto simp: scan_directory_def Let_def split: sum.splits os_error.splits)
  then show ?thesis using reset_cursor_ok [OF assms(2), of xs] by simp
qed

lemma navigate_to_cursor_ok:
  assumes "navigate_to e st p = Return st'" and "cursor_ok st"
  shows "cursor_ok st'"
  using assms
  by (auto simp: navigate_to_def split: sum.splits os_error.splits
      intro: scan_directory_cursor_ok)

lemma handle_search_cursor_ok: "cursor_ok (handle_search e st q)"
  by (simp add: cursor_ok_def active_list_def handle_search_def Let_def)

lemma open_selected_cursor_ok:
  assumes "open_selected e st xs = Return (st', go)" and "cursor_ok st"
  shows "cursor_ok st'"
  using assms
  by (auto simp: open_selected_def and_then_Return open_file_def
      split: option.splits if_splits intro: navigate_to_cursor_ok)

lemma handle_input_cursor_ok:
  assumes "handle_input e st key = Return (st', go)" and "cursor_ok st"
  shows "cursor_ok st'"
proof (cases "search_mode st")
  case True
  with assms show ?thesis
    by (auto simp: handle_input_def Let_def handle_search_cursor_ok
        cursor_ok_def [of "st\<lparr>search_mode := False, search_query := [], cursor_position := 0\<rparr>"]
        active_list_def
        split: if_splits intro: open_selected_cursor_ok)
next
  case False
  note browse = this
  show ?thesis
  proof (cases "note_mode st")
    case True
    show ?thesis using assms browse True
      by (auto simp: handle_input_def Let_def and_then_Return cursor_ok_note split: if_splits)
  next
    case False
    have 2: "cursor_ok (st\<lparr>cursor_position := max 0 (cursor_position st - 1)\<rparr>)"
      if "items st \<noteq> []"
      using assms(2) browse that by (auto simp: cursor_ok_def active_list_def)
    have 3: "cursor_ok (st\<lparr>cursor_position :=
        min (int (length (items st)) - 1) (cursor_position st + 1)\<rparr>)"
      if "items st \<noteq> []"
      using assms(2) browse that by (auto simp: cursor_ok_def active_list_def)
    show ?thesis using assms browse False 2 3
      by (auto simp: handle_input_def Let_def and_then_Return handle_search_cursor_ok
          cursor_ok_note split: if_splits intro: open_selected_cursor_ok)
  qed
qed

lemma reachable_cursor_ok: "reachable s \<Longrightarrow> cursor_ok s"
proof (induction rule: reachable.induct)
  case (start e cwd s)
  then show ?case by (intro scan_directory_cursor_ok [of e "init_explorer cwd"])
      (simp_all add: init_explorer_def)
next
  case (step s e key s')
  then show ?case by (intro handle_input_cursor_ok [of e s key s' True])
qed

text \<open>
  C7. The cursor is inside the list under it (\<^const>\<open>filtered_items\<close> in search mode,
  \<^const>\<open>items\<close> otherwise), and is 0 when that list is empty: this holds after every
  scan that starts outside search mode (the first scan and the one of
  \<^const>\<open>navigate_to\<close> do) or from a state where it holds, and it is kept by every key
  event that returns; so it holds in every state of the main loop. After the scan of a
  directory without children the cursor is 0.
\<close>

theorem cursor_invariant:
  "(cursor_ok s \<longleftrightarrow>
      (let l = (if search_mode s then filtered_items s else items s)
       in if l = [] then cursor_position s = 0
          else 0 \<le> cursor_position s \<and> cursor_position s < int (length l)))
   \<and> (scan_directory e st = Return st' \<and> (\<not> search_mode st \<or> cursor_ok st) \<longrightarrow> cursor_ok st')
   \<and> (handle_input e st key = Return (st'', go) \<and> cursor_ok st \<longrightarrow> cursor_ok st'')
   \<and> (reachable s' \<longrightarrow> cursor_ok s')
   \<and> (path_iterdir e (current_path st) = Inr [] \<longrightarrow>
        (\<exists>st'. scan_directory e st = Return st' \<and> cursor_position st' = 0))"
proof (intro conjI impI)
  show "cursor_ok s \<longleftrightarrow>
      (let l = (if search_mode s then filtered_items s else items s)
       in if l = [] then cursor_position s = 0
          else 0 \<le> cursor_position s \<and> cursor_position s < int (length l))"
    by (simp add: cursor_ok_def active_list_def)
next
  assume "scan_directory e st = Return st' \<and> (\<not> search_mode st \<or> cursor_ok st)"
  then show "cursor_ok st'" using scan_directory_cursor_ok by blast
next
  assume "handle_input e st key = Return (st'', go) \<and> cursor_ok st"
  then show "cursor_ok st''" using handle_input_cursor_ok by blast
next
  assume "reachable s'"
  then show "cursor_ok s'" by (rule reachable_cursor_ok)
next
  assume "path_iterdir e (current_path st) = Inr []"
  then show "\<exists>st'. scan_directory e st = Return st' \<and> cursor_position st' = 0"
    by (simp add: scan_directory_def reset_cursor_def parent_entry_def)
qed

theorem cursor_invariant_witness:
  "scan_directory demo_env (init_explorer demo_dir) = Return demo_state
   \<and> \<not> search_mode (init_explorer demo_dir)
   \<and> cursor_ok demo_state
   \<and> reachable demo_state
   \<and> handle_input demo_env demo_state KEY_DOWN = Return (demo_state\<lparr>cursor_position := 1\<rparr>, True)
   \<and> cursor_ok (demo_state\<lparr>cursor_position := 1\<rparr>)
   \<and> reachable (demo_state\<lparr>cursor_position := 1\<rparr>)
   \<and> path_iterdir demo_env (current_path (demo_state\<lparr>current_path := demo_dir @ [''docs'']\<rparr>))
       = Inr []
   \<and> scan_directory demo_env (demo_state\<lparr>current_path := demo_dir @ [''docs''], cursor_position := 5\<rparr>)
       = Return (demo_state\<lparr>current_path := demo_dir @ [''docs''], cursor_position := 0,
                    items := [(''../'', True, demo_dir)]\<rparr>)"
proof -
  have 1: "scan_directory demo_env (init_explorer demo_dir) = Return demo_state"
    by code_simp
  have 2: "\<not> search_mode (init_explorer demo_dir)"
    by (simp add: init_explorer_def)
  have 3: "cursor_ok demo_state"
    using cursor_invariant [of _ demo_env "init_explorer demo_dir" demo_state] 1 2 by blast
  have r: "reachable demo_state" using 1 by (rule reachable.start)
  have 4: "handle_input demo_env demo_state KEY_DOWN
      = Return (demo_state\<lparr>cursor_position := 1\<rparr>, True)"
    by (simp add: handle_input_def demo_state_def init_explorer_def demo_items_def
        KEY_DOWN_def KEY_UP_def KEY_BACKSPACE_def)
  have 5: "cursor_ok (demo_state\<lparr>cursor_position := 1\<rparr>)"
    using cursor_invariant [of _ demo_env demo_state _ KEY_DOWN
        "demo_state\<lparr>cursor_position := 1\<rparr>" True] 3 4 by blast
  have r': "reachable (demo_state\<lparr>cursor_position := 1\<rparr>)" using r 4 by (rule reachable.step)
  have 6: "path_iterdir demo_env (current_path (demo_state\<lparr>current_path := demo_dir @ [''docs'']\<rparr>))
      = Inr []"
    by (simp add: demo_env_def demo_dir_def)
  have 7: "scan_directory demo_env
        (demo_state\<lparr>current_path := demo_dir @ [''docs''], cursor_position := 5\<rparr>)
      = Return (demo_state\<lparr>current_path := demo_dir @ [''docs''], cursor_position := 0,
                   items := [(''../'', True, demo_dir)]\<rparr>)"
    by (simp add: scan_directory_def demo_env_def demo_dir_def reset_cursor_def parent_entry_def
        path_parent_def demo_state_def init_explorer_def)
  from 1 2 3 r 4 5 r' 6 7 show ?thesis by (intro conjI)
qed

subsection \<open>C3: a failing navigation\<close>

text \<open>
  C3 says that a navigation that fails leaves cursor and items as they were. It does not:
  in the example, Enter on the entry \<^verbatim>\<open>secret/\<close> (the cursor is at 3), a directory that
  cannot be listed, returns with the explorer inside \<^verbatim>\<open>secret\<close>, the items reduced to
  the entry of the parent and the cursor at 0.
\<close>

theorem navigate_failure_counterexample:
  "path_resolve demo_env (demo_dir @ [''secret'']) = Inr (demo_dir @ [''secret''])
   \<and> path_iterdir demo_env (demo_dir @ [''secret'']) = Inl PermissionError
   \<and> py_getitem (items demo_state) 3 = Some (''secret/'', True, demo_dir @ [''secret''])
   \<and> handle_input demo_env (demo_state\<lparr>cursor_position := 3\<rparr>) 10
       = Return (demo_state\<lparr>current_path := demo_dir @ [''secret''], cursor_position := 0,
                    items := [(''../'', True, demo_dir)]\<rparr>, True)
   \<and> items (demo_state\<lparr>current_path := demo_dir @ [''secret''], cursor_position := 0,
                    items := [(''../'', True, demo_dir)]\<rparr>)
       \<noteq> items (demo_state\<lparr>cursor_position := 3\<rparr>)
   \<and> cursor_position (demo_state\<lparr>current_path := demo_dir @ [''secret''], cursor_position := 0,
                    items := [(''../'', True, demo_dir)]\<rparr>)
       \<noteq> cursor_position (demo_state\<lparr>cursor_position := 3\<rparr>)"
  by (simp add: handle_input_def open_selected_def navigate_to_def scan_directory_def
      reset_cursor_def parent_entry_def path_parent_def py_getitem_def
      demo_env_def demo_dir_def demo_state_def demo_items_def init_explorer_def
      KEY_DOWN_def KEY_UP_def KEY_BACKSPACE_def)

text \<open>
  C3, as amended. A navigation that meets a permission error does not raise. When
  listing the target is what fails, the explorer is in the target all the same: the
  current path is the resolved target, the items are the entry \<^verbatim>\<open>../\<close> of the parent
  alone (nothing at the root), the cursor is 0, search mode and note mode are off, query
  and title are empty. When resolving the target is what fails, the whole state, its
  mode included, is what it was.
\<close>

theorem navigate_to_permission_error:
  "(path_resolve e p = Inr q \<and> path_iterdir e q = Inl PermissionError \<longrightarrow>
      navigate_to e st p
        = Return (st\<lparr>current_path := q, cursor_position := 0, search_mode := False,
                     search_query := [], note_mode := False, note_title := [],
                     items := (if q = [] then [] else [(''../'', True, butlast q)])\<rparr>))
   \<and> (path_resolve e p = Inl PermissionError \<longrightarrow> navigate_to e st p = Return st)"
  by (auto simp: navigate_to_def scan_directory_def reset_cursor_def parent_entry_root)

theorem navigate_to_permission_error_witness:
  "path_resolve demo_env (demo_dir @ [''secret'']) = Inr (demo_dir @ [''secret''])
   \<and> path_iterdir demo_env (demo_dir @ [''secret'']) = Inl PermissionError
   \<and> navigate_to demo_env demo_search_state (demo_dir @ [''secret''])
       = Return (demo_search_state\<lparr>current_path := demo_dir @ [''secret''], cursor_position := 0,
                   search_mode := False, search_query := [], note_mode := False,
                   note_title := [], items := [(''../'', True, demo_dir)]\<rparr>)
   \<and> path_resolve (demo_env\<lparr>path_resolve := \<lambda>p. Inl PermissionError\<rparr>) (demo_dir @ [''secret''])
       = Inl PermissionError
   \<and> navigate_to (demo_env\<lparr>path_resolve := \<lambda>p. Inl PermissionError\<rparr>) demo_search_state
         (demo_dir @ [''secret''])
       = Return demo_search_state"
proof -
  have 1: "path_resolve demo_env (demo_dir @ [''secret'']) = Inr (demo_dir @ [''secret''])"
    by (simp add: demo_env_def)
  have 2: "path_iterdir demo_env (demo_dir @ [''secret'']) = Inl PermissionError"
    by (simp add: demo_env_def demo_dir_def)
  have 3: "path_resolve (demo_env\<lparr>path_resolve := \<lambda>p. Inl PermissionError\<rparr>)
      (demo_dir @ [''secret'']) = Inl PermissionError"
    by simp
  have 4: "(if demo_dir @ [''secret''] = [] then []
            else [(''../'', True, butlast (demo_dir @ [''secret'']))]) = [(''../'', True, demo_dir)]"
    by simp
  from 1 2 3
    navigate_to_permission_error [of demo_env "demo_dir @ [''secret'']" "demo_dir @ [''secret'']"
      demo_search_state]
    navigate_to_permission_error [of "demo_env\<lparr>path_resolve := \<lambda>p. Inl PermissionError\<rparr>"
      "demo_dir @ [''secret'']" _ demo_search_state]
  show ?thesis by (simp only: 4)
qed

subsection \<open>C1: Up and Down in search mode\<close>

text \<open>
  C1 says that Up and Down move the cursor in search mode. They do not: after the key
  \<^verbatim>\<open>/\<close> the example explorer is in search mode with nine filtered items and the cursor
  at 0, and Down returns the same state, where the claim wants the cursor at 1.
\<close>

theorem search_arrows_counterexample:
  "handle_input demo_env demo_state (of_char CHR ''/'') = Return (demo_search_state, True)
   \<and> search_mode demo_search_state
   \<and> length (filtered_items demo_search_state) = 9
   \<and> cursor_position demo_search_state = 0
   \<and> handle_input demo_env demo_search_state KEY_DOWN = Return (demo_search_state, True)
   \<and> cursor_position demo_search_state
       \<noteq> min (int (length (filtered_items demo_search_state)) - 1)
             (cursor_position demo_search_state + 1)"
  by (simp add: handle_input_def handle_search_def demo_search_state_def demo_state_def
      demo_items_def init_explorer_def KEY_DOWN_def KEY_UP_def KEY_BACKSPACE_def)

text \<open>
  C1, as amended. In search mode an Up or Down key event returns the state as it was:
  the cursor keeps its value. Up and Down move the cursor by one, kept within 0 and
  \<open>length items - 1\<close>, in browse mode (neither search mode nor note mode), for every
  state whose items are not empty.
\<close>

theorem search_arrows_ignored:
  "(search_mode st \<and> (key = KEY_UP \<or> key = KEY_DOWN) \<longrightarrow>
      handle_input e st key = Return (st, True))
   \<and> (\<not> search_mode st \<and> \<not> note_mode st \<and> items st \<noteq> [] \<longrightarrow>
        handle_input e st KEY_UP
          = Return (st\<lparr>cursor_position := max 0 (cursor_position st - 1)\<rparr>, True)
        \<and> handle_input e st KEY_DOWN
          = Return (st\<lparr>cursor_position :=
                        min (int (length (items st)) - 1) (cursor_position st + 1)\<rparr>, True))"
  by (auto simp: handle_input_def KEY_DOWN_def KEY_UP_def KEY_BACKSPACE_def)

theorem search_arrows_ignored_witness:
  "search_mode demo_search_state
   \<and> handle_input demo_env demo_search_state KEY_UP = Return (demo_search_state, True)
   \<and> handle_input demo_env demo_search_state KEY_DOWN = Return (demo_search_state, True)
   \<and> \<not> search_mode demo_state \<and> \<not> note_mode demo_state \<and> items demo_state \<noteq> []
   \<and> handle_input demo_env demo_state KEY_DOWN
       = Return (demo_state\<lparr>cursor_position := 1\<rparr>, True)
   \<and> handle_input demo_env demo_state KEY_UP
       = Return (demo_state\<lparr>cursor_position := 0\<rparr>, True)"
proof -
  have 1: "search_mode demo_search_state" by (simp add: demo_search_state_def)
  have 2: "\<not> search_mode demo_state \<and> \<not> note_mode demo_state \<and> items demo_state \<noteq> []"
    by (simp add: demo_state_def init_explorer_def demo_items_def)
  have 3: "cursor_position demo_state = 0 \<and> int (length (items demo_state)) = 9"
    by (simp add: demo_state_def init_explorer_def demo_items_def)
  from 1 2 3 search_arrows_ignored [of demo_search_state KEY_UP demo_env]
    search_arrows_ignored [of demo_search_state KEY_DOWN demo_env]
    search_arrows_ignored [of demo_state KEY_UP demo_env]
  show ?thesis by simp
qed

end
